theory Spec2Isabelle
  imports Complex_Main
begin

section \<open>Conventions of the embedding\<close>

text \<open>
  The repository is Python 2 on top of numpy, TensorFlow and gym.  Python floats and the
  elements of float arrays are modelled as \<^typ>\<open>real\<close>: rounding, infinities and NaN are
  outside the model.  A numpy array is the list of its elements; where only the slices
  along one axis matter, it is the list of these slices.  Random draws are taken from an
  explicit source passed as an argument.  Every exception the modelled code can raise is a
  value of \<open>py_error\<close>, and a fallible function returns \<open>py_error + 'a\<close>.
\<close>

datatype py_error =
    IndexError
  | ValueError
  | ZeroDivisionError
  | AttributeError
  | NameError
  | UnsupportedActionSpace string

section \<open>utils/stats.py\<close>

text \<open>
  \<^verbatim>\<open>kl_divergence(P, Q)\<close>: \<^verbatim>\<open>(P * np.log((P + eps) / (Q + eps))).sum()\<close> with
  \<^verbatim>\<open>eps = 1e-10\<close>.  The arrays are same-shape arrays given by their elements in a
  common order, so the elementwise operations are \<^const>\<open>map2\<close>.
\<close>

definition kl_divergence :: "real list \<Rightarrow> real list \<Rightarrow> real" where
  "kl_divergence P Q =
     (let eps = 1 / 10 ^ 10
      in sum_list (map2 (\<lambda>p q. p * ln ((p + eps) / (q + eps))) P Q))"

definition jenson_shannon_divergence :: "real list \<Rightarrow> real list \<Rightarrow> real" where
  "jenson_shannon_divergence P Q =
     (let M = map (\<lambda>x. 0.5 * x) (map2 (+) P Q)
      in 0.5 * (kl_divergence P M + kl_divergence Q M))"

section \<open>networks/layers.py\<close>

text \<open>
  \<^verbatim>\<open>tf.random_uniform(shape, minval, maxval)\<close> belongs to TensorFlow.  Its contract is
  taken as: one element per index of the shape, each \<open>minval + u * (maxval - minval)\<close> for a
  unit sample \<open>u\<close> of the generator; \<open>rnd i\<close> is the unit sample of the \<open>i\<close>-th element.
\<close>

definition random_uniform :: "(nat \<Rightarrow> real) \<Rightarrow> nat list \<Rightarrow> real \<Rightarrow> real \<Rightarrow> real list" where
  "random_uniform rnd shape minval maxval =
     map (\<lambda>i. minval + rnd i * (maxval - minval)) [0..<prod_list shape]"

text \<open>
  \<^verbatim>\<open>conv_weight_variable(shape, name)\<close>.  \<^verbatim>\<open>shape[-2]\<close> and \<^verbatim>\<open>shape[-1]\<close> raise
  IndexError on a shape with fewer than two entries; \<^verbatim>\<open>np.prod(shape[:2])\<close> is the
  product of the first two entries (of those there are).  The sum of the fans is a numpy
  integer here, so a zero sum does not raise; the tensor has no element then.
\<close>

definition conv_weight_variable :: "(nat \<Rightarrow> real) \<Rightarrow> nat list \<Rightarrow> py_error + real list" where
  "conv_weight_variable rnd shape =
     (if length shape < 2 then Inl IndexError
      else
        let receptive_field_size = prod_list (take 2 shape);
            fan_in = shape ! (length shape - 2) * receptive_field_size;
            fan_out = shape ! (length shape - 1) * receptive_field_size;
            d = 2 * sqrt (6 / real (fan_in + fan_out))
        in Inr (random_uniform rnd shape (- d) d))"

text \<open>
  \<^verbatim>\<open>fc_weight_variable(shape, name)\<close>.  The fans are Python integers, so
  \<^verbatim>\<open>6. / (fan_in + fan_out)\<close> raises ZeroDivisionError on a zero sum.
\<close>

definition fc_weight_variable :: "(nat \<Rightarrow> real) \<Rightarrow> nat list \<Rightarrow> py_error + real list" where
  "fc_weight_variable rnd shape =
     (if length shape < 2 then Inl IndexError
      else
        let fan_in = shape ! 0;
            fan_out = shape ! 1
        in if fan_in + fan_out = 0 then Inl ZeroDivisionError
           else
             let d = 2 * sqrt (6 / real (fan_in + fan_out))
             in Inr (random_uniform rnd shape (- d) d))"

text \<open>
  The bound as the specification words it: \<open>d = 2 * sqrt (6 / (fan_in + fan_out))\<close>.
\<close>

definition spec_init_bound :: "nat \<Rightarrow> nat \<Rightarrow> real" where
  "spec_init_bound fan_in fan_out = 2 * sqrt (6 / real (fan_in + fan_out))"

section \<open>environments/atari_environment.py\<close>

subsection \<open>The libraries the wrapper calls\<close>

text \<open>
  A gym action space, as far as the code inspects it.  \<open>Discrete n\<close> has the attribute
  \<^verbatim>\<open>n\<close>; \<open>Box shape\<close> has a shape and neither \<^verbatim>\<open>n\<close> nor \<^verbatim>\<open>num_discrete_space\<close>;
  \<open>OtherSpace name k\<close> is any other kind, named \<open>name\<close>, with the attribute
  \<^verbatim>\<open>num_discrete_space\<close> when \<open>k\<close> is \<open>Some\<close>.
\<close>

datatype action_space =
    Discrete nat
  | Box "nat list"
  | OtherSpace string "nat option"

text \<open>
  A gym environment: \<open>'e\<close> is the hidden state of the emulator, \<open>'o\<close> the type of raw
  observations.  \<open>env_reset\<close> and \<open>env_step\<close> are \<^verbatim>\<open>env.reset()\<close> and
  \<^verbatim>\<open>env.step(a)\<close> (the \<^verbatim>\<open>info\<close> component is never read); \<open>ale_lives\<close> is
  \<^verbatim>\<open>ale.lives()\<close>, \<open>None\<close> when the environment has no \<^verbatim>\<open>ale\<close>.
\<close>

record ('e, 'o) gym_env =
  spec_id :: string
  action_space :: action_space
  frameskip :: nat
  env_state :: 'e
  env_reset :: "'e \<Rightarrow> 'o \<times> 'e"
  env_step :: "'e \<Rightarrow> nat \<Rightarrow> ('o \<times> real \<times> bool) \<times> 'e"
  ale_lives :: "'e \<Rightarrow> int option"

text \<open>
  The image operations of skimage and the number of axes of an observation
  (\<^verbatim>\<open>len(observation.shape)\<close>).
\<close>

record 'o skimage =
  ndim :: "'o \<Rightarrow> nat"
  rgb2gray :: "'o \<Rightarrow> 'o"
  resize :: "'o \<Rightarrow> nat \<times> nat \<Rightarrow> 'o"

text \<open>
  \<^verbatim>\<open>np.argmax\<close> of a vector: the first index of a largest element; ValueError on an
  empty one.
\<close>

fun argmax_from :: "nat \<Rightarrow> real \<Rightarrow> nat \<Rightarrow> real list \<Rightarrow> nat" where
  "argmax_from best bv i [] = best"
| "argmax_from best bv i (x # xs) =
     (if bv < x then argmax_from i x (Suc i) xs else argmax_from best bv (Suc i) xs)"

definition argmax :: "real list \<Rightarrow> py_error + nat" where
  "argmax v = (case v of [] \<Rightarrow> Inl ValueError | x # xs \<Rightarrow> Inr (argmax_from 0 x 1 xs))"

text \<open>
  \<^verbatim>\<open>collections.deque(maxlen=m).append(x)\<close>: the new element goes to the right and the
  deque keeps its last \<open>m\<close> elements.
\<close>

definition deque_append :: "nat \<Rightarrow> 'a list \<Rightarrow> 'a \<Rightarrow> 'a list" where
  "deque_append maxlen buf x = (let buf' = buf @ [x] in drop (length buf' - maxlen) buf')"

subsection \<open>Module functions\<close>

definition get_actions ::
  "(string \<Rightarrow> ('e, 'o) gym_env) \<Rightarrow> string \<Rightarrow> py_error + (nat \<times> action_space)" where
  "get_actions gym_make game =
     (let env = gym_make game
      in case (case action_space env of
                 Discrete n \<Rightarrow> Inr n
               | Box shape \<Rightarrow> Inr (prod_list shape)
               | OtherSpace name k \<Rightarrow> Inl (UnsupportedActionSpace name)) of
           Inl e \<Rightarrow> Inl e
         | Inr num_actions \<Rightarrow>
             Inr (if game \<in> set [''Pong-v0'', ''Breakout-v0''] then 3 else num_actions,
                  action_space env))"

subsection \<open>The class AtariEnvironment\<close>

text \<open>
  The attributes of the object.  \<open>current_lives\<close> is \<open>None\<close> until
  \<^verbatim>\<open>get_initial_state\<close> has set the attribute.  A state is either one frame (RGB mode)
  or the stack of \<open>agent_history_length\<close> frames, given as the list of its slices along
  the last axis.
\<close>

record ('e, 'o) AtariEnvironment =
  game :: string
  env :: "('e, 'o) gym_env"
  resized_width :: nat
  resized_height :: nat
  agent_history_length :: nat
  single_life_episodes :: bool
  use_rgb :: bool
  gym_actions :: "nat list"
  state_buffer :: "'o list"
  visualize :: bool
  current_lives :: "int option"

datatype 'o state = Frame 'o | Stack "'o list"

text \<open>
  \<^verbatim>\<open>__init__\<close>, every argument given.  \<^verbatim>\<open>deque(maxlen=agent_history_length-1)\<close>
  raises ValueError on a negative \<^verbatim>\<open>maxlen\<close>, that is on a history length of 0.
\<close>

definition AtariEnvironment_init ::
  "(string \<Rightarrow> ('e, 'o) gym_env) \<Rightarrow> string \<Rightarrow> bool \<Rightarrow> bool \<Rightarrow> nat \<Rightarrow> nat \<Rightarrow> nat \<Rightarrow> nat \<Rightarrow> bool
     \<Rightarrow> py_error + ('e, 'o) AtariEnvironment" where
  "AtariEnvironment_init gym_make game' visualize' use_rgb' resized_width' resized_height'
       agent_history_length' frame_skip single_life_episodes' =
     (let env' = (gym_make game')\<lparr>frameskip := frame_skip\<rparr>
      in case (case action_space env' of
                 Discrete n \<Rightarrow> Inr n
               | Box shape \<Rightarrow> Inl AttributeError
               | OtherSpace name None \<Rightarrow> Inl AttributeError
               | OtherSpace name (Some k) \<Rightarrow> Inr k) of
           Inl e \<Rightarrow> Inl e
         | Inr num_actions \<Rightarrow>
             let gym_actions' =
                   (if spec_id env' \<in> set [''Pong-v0'', ''Breakout-v0''] then [1, 2, 3]
                    else [0..<num_actions])
             in if agent_history_length' = 0 then Inl ValueError
                else Inr \<lparr>game = game', env = env', resized_width = resized_width',
                          resized_height = resized_height',
                          agent_history_length = agent_history_length',
                          single_life_episodes = single_life_episodes', use_rgb = use_rgb',
                          gym_actions = gym_actions', state_buffer = [],
                          visualize = visualize', current_lives = None\<rparr>)"

definition get_lives :: "('e, 'o) AtariEnvironment \<Rightarrow> int" where
  "get_lives emu =
     (case ale_lives (env emu) (env_state (env emu)) of Some l \<Rightarrow> l | None \<Rightarrow> 0)"

definition get_preprocessed_frame :: "'o skimage \<Rightarrow> ('e, 'o) AtariEnvironment \<Rightarrow> 'o \<Rightarrow> 'o" where
  "get_preprocessed_frame sk emu observation =
     (if 1 < ndim sk observation
      then resize sk (if \<not> use_rgb emu then rgb2gray sk observation else observation)
             (resized_width emu, resized_height emu)
      else observation)"

text \<open>
  \<^verbatim>\<open>get_initial_state\<close>: returns the state and the updated object.  The loop appends
  the frame \<open>agent_history_length - 1\<close> times to the cleared buffer.
\<close>

definition get_initial_state ::
  "'o skimage \<Rightarrow> ('e, 'o) AtariEnvironment \<Rightarrow> 'o state \<times> ('e, 'o) AtariEnvironment" where
  "get_initial_state sk emu =
     (let (x_t0, e') = env_reset (env emu) (env_state (env emu));
          emu1 = emu\<lparr>state_buffer := [], env := (env emu)\<lparr>env_state := e'\<rparr>\<rparr>;
          x_t = get_preprocessed_frame sk emu1 x_t0;
          s_t = (if use_rgb emu1 then Frame x_t
                 else Stack (replicate (agent_history_length emu1) x_t));
          emu2 = emu1\<lparr>current_lives := Some (get_lives emu1)\<rparr>;
          buf = fold (\<lambda>i b. deque_append (agent_history_length emu2 - 1) b x_t)
                  [0..<agent_history_length emu2 - 1] (state_buffer emu2)
      in (s_t, emu2\<lparr>state_buffer := buf\<rparr>))"

text \<open>
  \<^verbatim>\<open>get_state(frame)\<close>: reading \<^verbatim>\<open>self.state_buffer[i]\<close> raises IndexError when the
  buffer holds fewer than \<open>agent_history_length - 1\<close> frames.
\<close>

definition get_state :: "('e, 'o) AtariEnvironment \<Rightarrow> 'o \<Rightarrow> py_error + 'o state" where
  "get_state emu frame =
     (if use_rgb emu then Inr (Frame frame)
      else if length (state_buffer emu) < agent_history_length emu - 1 then Inl IndexError
      else Inr (Stack (map (\<lambda>i. state_buffer emu ! i) [0..<agent_history_length emu - 1]
                        @ [frame])))"

text \<open>
  \<^verbatim>\<open>next(action_index)\<close>: returns the state, the reward, the terminal flag and the
  updated object.  \<^verbatim>\<open>self.gym_actions[action_index]\<close> raises IndexError past the end of
  the list; rendering has no effect on the model.
\<close>

definition "next" ::
  "'o skimage \<Rightarrow> ('e, 'o) AtariEnvironment \<Rightarrow> real list
     \<Rightarrow> py_error + ('o state \<times> real \<times> bool \<times> ('e, 'o) AtariEnvironment)" where
  "next sk emu action_index =
     (case argmax action_index of
        Inl e \<Rightarrow> Inl e
      | Inr a \<Rightarrow>
          if \<not> a < length (gym_actions emu) then Inl IndexError
          else
            let ((frame0, reward, terminal), e') =
                  env_step (env emu) (env_state (env emu)) (gym_actions emu ! a);
                emu1 = emu\<lparr>env := (env emu)\<lparr>env_state := e'\<rparr>\<rparr>;
                frame = get_preprocessed_frame sk emu1 frame0
            in case get_state emu1 frame of
                 Inl e \<Rightarrow> Inl e
               | Inr state \<Rightarrow>
                   let emu2 = emu1\<lparr>state_buffer :=
                                deque_append (agent_history_length emu1 - 1)
                                  (state_buffer emu1) frame\<rparr>
                   in if single_life_episodes emu2
                      then (case current_lives emu2 of
                              None \<Rightarrow> Inl AttributeError
                            | Some lives \<Rightarrow>
                                Inr (state, reward, terminal \<or> get_lives emu2 < lives,
                                     emu2\<lparr>current_lives := Some (get_lives emu2)\<rparr>))
                      else Inr (state, reward, terminal,
                                emu2\<lparr>current_lives := Some (get_lives emu2)\<rparr>))"

subsection \<open>Runs of the wrapper\<close>

text \<open>
  The calls a client makes: \<^verbatim>\<open>get_initial_state()\<close>, then \<^verbatim>\<open>next(a)\<close> for each action of
  a list in turn.  \<open>nexts\<close> collects the states the calls of \<^verbatim>\<open>next\<close> return, and
  \<open>episode_states\<close> puts the initial state in front of them.
\<close>

fun nexts ::
  "'o skimage \<Rightarrow> ('e, 'o) AtariEnvironment \<Rightarrow> real list list
     \<Rightarrow> py_error + ('o state list \<times> ('e, 'o) AtariEnvironment)" where
  "nexts sk emu [] = Inr ([], emu)"
| "nexts sk emu (a # as) =
     (case next sk emu a of
        Inl e \<Rightarrow> Inl e
      | Inr (s, reward, terminal, emu') \<Rightarrow>
          (case nexts sk emu' as of
             Inl e \<Rightarrow> Inl e
           | Inr (ss, emu'') \<Rightarrow> Inr (s # ss, emu'')))"

definition episode_states ::
  "'o skimage \<Rightarrow> ('e, 'o) AtariEnvironment \<Rightarrow> real list list \<Rightarrow> py_error + 'o state list" where
  "episode_states sk emu acts =
     (let (s0, emu0) = get_initial_state sk emu
      in case nexts sk emu0 acts of
           Inl e \<Rightarrow> Inl e
         | Inr (ss, emu') \<Rightarrow> Inr (s0 # ss))"

text \<open>
  The frames themselves, read off the gym environment without the wrapper's buffer: the
  preprocessed observations of stepping the emulator from the hidden state \<open>e\<close> with the
  native actions that the given actions select.
\<close>

fun step_frames :: "'o skimage \<Rightarrow> ('e, 'o) AtariEnvironment \<Rightarrow> 'e \<Rightarrow> real list list \<Rightarrow> 'o list" where
  "step_frames sk emu e [] = []"
| "step_frames sk emu e (a # as) =
     (case argmax a of
        Inl err \<Rightarrow> []
      | Inr i \<Rightarrow>
          let ((frame0, reward, terminal), e') = env_step (env emu) e (gym_actions emu ! i)
          in get_preprocessed_frame sk emu frame0 # step_frames sk emu e' as)"

text \<open>An action the wrapper can map to a native action.\<close>

definition valid_action :: "('e, 'o) AtariEnvironment \<Rightarrow> real list \<Rightarrow> bool" where
  "valid_action emu a =
     (case argmax a of Inl err \<Rightarrow> False | Inr i \<Rightarrow> i < length (gym_actions emu))"

subsection \<open>A scripted environment\<close>

text \<open>
  The stub of the specification's end-to-end scenario: every step has reward 1, the third
  step ends the episode.  Its hidden state is the list of the native actions it was
  stepped with, an observation is the number of steps taken so far, and observations are
  vectors, which the preprocessing passes through.
\<close>

definition scripted_env :: "(nat list, nat) gym_env" where
  "scripted_env =
     \<lparr>spec_id = ''Scripted-v0'', action_space = Discrete 2, frameskip = 4, env_state = [],
      env_reset = (\<lambda>e. (0, [])),
      env_step = (\<lambda>e a. ((Suc (length e), 1, 3 \<le> Suc (length e)), e @ [a])),
      ale_lives = (\<lambda>e. Some 3)\<rparr>"

definition scripted_skimage :: "nat skimage" where
  "scripted_skimage = \<lparr>ndim = (\<lambda>ob. 1), rgb2gray = (\<lambda>ob. ob), resize = (\<lambda>ob wh. ob)\<rparr>"

text \<open>
  The wrapper that \<open>AtariEnvironment_init (\<lambda>g. scripted_env) ''Scripted-v0'' False False
  84 84 4 4 False\<close> builds.
\<close>

definition scripted_emulator :: "(nat list, nat) AtariEnvironment" where
  "scripted_emulator =
     \<lparr>game = ''Scripted-v0'', env = scripted_env, resized_width = 84, resized_height = 84,
      agent_history_length = 4, single_life_episodes = False, use_rgb = False,
      gym_actions = [0, 1], state_buffer = [], visualize = False, current_lives = None\<rparr>"

section \<open>algorithms/sequence_decoder_actor_learner.py\<close>

subsection \<open>The network, the session and the sampler\<close>

text \<open>
  The feed of the decoding call of \<^verbatim>\<open>sample_action_sequence\<close>, key by key.
\<close>

record 's decoder_feed =
  fd_modify_state :: bool
  fd_input_ph :: "'s list"
  fd_decoder_initial_state :: "real list list"
  fd_decoder_seq_lengths :: "nat list"
  fd_action_inputs :: "real list list list"
  fd_allowed_actions :: "real list list list"

text \<open>
  \<^verbatim>\<open>SequencePolicyVNetwork\<close> is not part of the sources, and neither is the session that
  runs it; both are a parameter.  \<open>output_layer_v s\<close> is the entry \<^verbatim>\<open>[0, 0]\<close> of the value
  output for the batch \<^verbatim>\<open>[s]\<close>, and \<open>decoder_run feed\<close> is the pair of \<^verbatim>\<open>action_probs\<close>
  (batch, decoding position, token) and \<^verbatim>\<open>decoder_state\<close>.
\<close>

record 's network =
  max_decoder_steps :: nat
  output_layer_v :: "'s \<Rightarrow> real"
  decoder_run :: "'s decoder_feed \<Rightarrow> real list list list \<times> real list list"

text \<open>\<^verbatim>\<open>action_probs[0, 0]\<close>.\<close>

definition index00 :: "'a list list \<Rightarrow> py_error + 'a" where
  "index00 t =
     (case t of
        [] \<Rightarrow> Inl IndexError
      | row # rows \<Rightarrow> (case row of [] \<Rightarrow> Inl IndexError | x # xs \<Rightarrow> Inr x))"

text \<open>\<^verbatim>\<open>np.finfo(np.float32).epsneg\<close>.\<close>

definition epsneg :: real where
  "epsneg = 1 / 2 ^ 24"

definition one_hot :: "nat \<Rightarrow> nat \<Rightarrow> real list" where
  "one_hot n k = map (\<lambda>j. if j = k then 1 else 0) [0..<n]"

text \<open>
  \<^verbatim>\<open>np.random.multinomial(1, pvals)\<close>: the counts of one trial, a vector as wide as
  \<open>pvals\<close> with a single 1.  numpy walks the categories in order and gives the trial to the
  last one when no earlier one takes it; \<open>u\<close> is the draw of the generator, the index of
  the first category that takes the trial.  It raises ValueError when
  \<^verbatim>\<open>sum(pvals[:-1])\<close> exceeds \<open>1.0 + 1e-12\<close>.
\<close>

definition multinomial_once :: "nat \<Rightarrow> real list \<Rightarrow> py_error + real list" where
  "multinomial_once u pvals =
     (if 1 + 1 / 10 ^ 12 < sum_list (butlast pvals) then Inl ValueError
      else Inr (one_hot (length pvals) (min u (length pvals - 1))))"

text \<open>
  The generator: \<open>rng k pvals\<close> is the draw of the \<open>k\<close>-th call within one sequence.
\<close>

type_synonym random_source = "nat \<Rightarrow> real list \<Rightarrow> nat"

subsection \<open>sample_action_sequence\<close>

text \<open>
  The \<^verbatim>\<open>while True\<close> loop, its variables as arguments.  \<open>fed\<close> is not a variable of the
  source: it records the feed of every decoding call made so far.  The loop need not
  return, so the result is an option.
\<close>

partial_function (option) decode_loop ::
  "'s network \<Rightarrow> random_source \<Rightarrow> nat \<Rightarrow> 's \<Rightarrow> bool \<Rightarrow> real list list \<Rightarrow> real list \<Rightarrow> real list
     \<Rightarrow> real list list \<Rightarrow> 's decoder_feed list
     \<Rightarrow> (py_error + (real list list \<times> 's decoder_feed list)) option" where
  "decode_loop net rng num_actions state modify_state cell_state selected_action
       allowed_actions actions fed =
     (let feed = \<lparr>fd_modify_state = modify_state, fd_input_ph = [state],
                  fd_decoder_initial_state = cell_state, fd_decoder_seq_lengths = [1],
                  fd_action_inputs = [replicate (max_decoder_steps net) selected_action],
                  fd_allowed_actions = [replicate (max_decoder_steps net) allowed_actions]\<rparr>;
          (action_probs, cell_state') = decoder_run net feed
      in if allowed_actions = [] then Some (Inl IndexError)
         else
           let allowed_actions' = allowed_actions[length allowed_actions - 1 := 1]
           in case index00 action_probs of
                Inl e \<Rightarrow> Some (Inl e)
              | Inr probs \<Rightarrow>
                  let pvals = map (\<lambda>x. x - epsneg) probs
                  in case multinomial_once (rng (length actions) pvals) pvals of
                       Inl e \<Rightarrow> Some (Inl e)
                     | Inr selected_action' \<Rightarrow>
                         let actions' = actions @ [selected_action']
                         in if \<not> num_actions < length selected_action' then Some (Inl IndexError)
                            else if selected_action' ! num_actions \<noteq> 0 \<or>
                                    length actions' = max_decoder_steps net
                            then Some (Inr (actions', fed @ [feed]))
                            else decode_loop net rng num_actions state True cell_state'
                                   selected_action' allowed_actions' actions' (fed @ [feed]))"

text \<open>
  \<^verbatim>\<open>sample_action_sequence(state)\<close> with the feeds of its decoding calls, and as the
  source returns it: the actions and the value.
\<close>

definition sample_action_sequence_fed ::
  "'s network \<Rightarrow> random_source \<Rightarrow> nat \<Rightarrow> 's
     \<Rightarrow> (py_error + ((real list list \<times> real) \<times> 's decoder_feed list)) option" where
  "sample_action_sequence_fed net rng num_actions state =
     (let val = output_layer_v net state;
          modify_state = False;
          cell_state = [replicate (256 * 2) 0];
          selected_action = replicate num_actions 0 @ [1];
          allowed_actions = replicate num_actions 1 @ [0]
      in case decode_loop net rng num_actions state modify_state cell_state selected_action
                allowed_actions [] [] of
           None \<Rightarrow> None
         | Some (Inl e) \<Rightarrow> Some (Inl e)
         | Some (Inr (actions, fed)) \<Rightarrow> Some (Inr ((actions, val), fed)))"

definition sample_action_sequence ::
  "'s network \<Rightarrow> random_source \<Rightarrow> nat \<Rightarrow> 's \<Rightarrow> (py_error + (real list list \<times> real)) option" where
  "sample_action_sequence net rng num_actions state =
     (case sample_action_sequence_fed net rng num_actions state of
        None \<Rightarrow> None
      | Some (Inl e) \<Rightarrow> Some (Inl e)
      | Some (Inr (r, fed)) \<Rightarrow> Some (Inr r))"

text \<open>
  The contract of the network on the width of its output: \<^verbatim>\<open>action_probs[0, 0]\<close> has
  one probability for each primitive action and one for the stop token.
\<close>

definition probs_width :: "'s network \<Rightarrow> nat \<Rightarrow> bool" where
  "probs_width net num_actions =
     (\<forall>feed probs. index00 (fst (decoder_run net feed)) = Inr probs \<longrightarrow>
        length probs = Suc num_actions)"

text \<open>
  What the claims say of a token: it is one-hot; it is the stop token of a vocabulary of
  \<open>num_actions\<close> primitive actions.
\<close>

definition is_one_hot :: "real list \<Rightarrow> bool" where
  "is_one_hot v = (list_all (\<lambda>x. x = 0 \<or> x = 1) v \<and> sum_list v = 1)"

definition is_stop :: "nat \<Rightarrow> real list \<Rightarrow> bool" where
  "is_stop num_actions v = (num_actions < length v \<and> v ! num_actions \<noteq> 0)"

subsection \<open>_run: one decision step\<close>

text \<open>
  The loop \<^verbatim>\<open>for a in action_sequence[:-1]\<close> with its \<^verbatim>\<open>break\<close>.  \<open>new_s\<close> is \<open>None\<close>
  while the variable is unbound.
\<close>

fun execute_actions ::
  "'o skimage \<Rightarrow> ('e, 'o) AtariEnvironment \<Rightarrow> real list list \<Rightarrow> 'o state option \<Rightarrow> real \<Rightarrow> bool
     \<Rightarrow> py_error + ('o state option \<times> real \<times> bool \<times> ('e, 'o) AtariEnvironment)" where
  "execute_actions sk emu [] new_s acc_reward episode_over =
     Inr (new_s, acc_reward, episode_over, emu)"
| "execute_actions sk emu (a # as) new_s acc_reward episode_over =
     (case next sk emu a of
        Inl e \<Rightarrow> Inl e
      | Inr (new_s', reward, episode_over', emu') \<Rightarrow>
          if episode_over' then Inr (Some new_s', acc_reward + reward, episode_over', emu')
          else execute_actions sk emu' as (Some new_s') (acc_reward + reward) episode_over')"

text \<open>
  Lines 125 to 131: \<open>acc_reward\<close> starts at 0, and \<open>episode_over\<close> is false when the
  enclosing loop is entered.
\<close>

definition execute_sequence ::
  "'o skimage \<Rightarrow> ('e, 'o) AtariEnvironment \<Rightarrow> real list list \<Rightarrow> 'o state option
     \<Rightarrow> py_error + ('o state option \<times> real \<times> bool \<times> ('e, 'o) AtariEnvironment)" where
  "execute_sequence sk emu action_sequence new_s =
     execute_actions sk emu (butlast action_sequence) new_s 0 False"

subsection \<open>_run: the targets of an update\<close>

text \<open>The bootstrap of the return; reading an unbound \<open>new_s\<close> raises NameError.\<close>

definition bootstrap :: "'s network \<Rightarrow> bool \<Rightarrow> 's option \<Rightarrow> py_error + real" where
  "bootstrap net episode_over new_s =
     (if episode_over then Inr 0
      else case new_s of None \<Rightarrow> Inl NameError | Some s' \<Rightarrow> Inr (output_layer_v net s'))"

record 's batches =
  s_batch :: "'s list"
  a_batch :: "real list list list"
  y_batch :: "real list"
  adv_batch :: "real list"

definition empty_batches :: "'s batches" where
  "empty_batches = \<lparr>s_batch = [], a_batch = [], y_batch = [], adv_batch = []\<rparr>"

text \<open>
  The loop \<^verbatim>\<open>for i in reversed(xrange(len(states)))\<close> over the indices it is given; an
  index past the end of one of the four lists raises IndexError.  (\<^verbatim>\<open>sel_actions\<close>, which
  only feeds the log line, is left out.)
\<close>

fun return_scan ::
  "real \<Rightarrow> real list \<Rightarrow> 's list \<Rightarrow> real list list list \<Rightarrow> real list \<Rightarrow> nat list \<Rightarrow> real
     \<Rightarrow> 's batches \<Rightarrow> py_error + (real \<times> 's batches)" where
  "return_scan gamma rewards states actions vals [] R b = Inr (R, b)"
| "return_scan gamma rewards states actions vals (i # idx) R b =
     (if i < length rewards \<and> i < length actions \<and> i < length states \<and> i < length vals
      then
        let R' = rewards ! i + gamma * R
        in return_scan gamma rewards states actions vals idx R'
             (b\<lparr>y_batch := y_batch b @ [R'],
                a_batch := a_batch b @ [actions ! i],
                s_batch := s_batch b @ [states ! i],
                adv_batch := adv_batch b @ [R' - vals ! i]\<rparr>)
      else Inl IndexError)"

definition compute_targets ::
  "real \<Rightarrow> real list \<Rightarrow> 's list \<Rightarrow> real list list list \<Rightarrow> real list \<Rightarrow> real \<Rightarrow> 's batches
     \<Rightarrow> py_error + (real \<times> 's batches)" where
  "compute_targets gamma rewards states actions vals R b =
     return_scan gamma rewards states actions vals (rev [0..<length states]) R b"

text \<open>
  The return of the specification, in chronological terms: the rewards from a step on,
  each discounted once more than the one before, and the bootstrap after the last.
\<close>

fun discounted_return :: "real \<Rightarrow> real list \<Rightarrow> real \<Rightarrow> real" where
  "discounted_return gamma [] R = R"
| "discounted_return gamma (r # rs) R = r + gamma * discounted_return gamma rs R"

definition spec_returns :: "real \<Rightarrow> real list \<Rightarrow> real \<Rightarrow> real list" where
  "spec_returns gamma rewards R =
     map (\<lambda>i. discounted_return gamma (drop i rewards) R) [0..<length rewards]"

text \<open>
  Lines 174 to 201: the sequence lengths, the padded tensors and the feed of the gradient
  call.  \<^verbatim>\<open>allowed_actions[:, 0, -1] = 0\<close> raises IndexError when there is no decoding
  position 0.
\<close>

record 's train_feed =
  tr_input_ph :: "'s list"
  tr_critic_target_ph :: "real list"
  tr_adv_actor_ph :: "real list"
  tr_decoder_initial_state :: "real list list"
  tr_action_inputs :: "real list list list"
  tr_action_outputs :: "real list list list"
  tr_allowed_actions :: "real list list list"
  tr_modify_state :: bool
  tr_decoder_seq_lengths :: "nat list"

definition training_feed ::
  "'s network \<Rightarrow> nat \<Rightarrow> real list list list \<Rightarrow> 's batches \<Rightarrow> py_error + 's train_feed" where
  "training_feed net num_actions actions b =
     (let seq_lengths = map length actions;
          padded_output_sequences =
            map (\<lambda>seq. seq @ replicate (max_decoder_steps net - length seq)
                                (replicate (num_actions + 1) 0)) (a_batch b);
          go_input = replicate (length (s_batch b)) [replicate num_actions 0 @ [1]];
          padded_input_sequences =
            map2 (\<lambda>go seq. go @ butlast seq) go_input padded_output_sequences;
          allowed_actions =
            replicate (length (s_batch b))
              (map (\<lambda>i. if i = 0 then replicate num_actions 1 @ [0]
                         else replicate (num_actions + 1) 1)
                 [0..<max_decoder_steps net])
      in if max_decoder_steps net = 0 then Inl IndexError
         else Inr \<lparr>tr_input_ph = s_batch b, tr_critic_target_ph = y_batch b,
                   tr_adv_actor_ph = adv_batch b,
                   tr_decoder_initial_state = replicate (length (s_batch b)) (replicate (256 * 2) 0),
                   tr_action_inputs = padded_input_sequences,
                   tr_action_outputs = padded_output_sequences,
                   tr_allowed_actions = allowed_actions,
                   tr_modify_state = False,
                   tr_decoder_seq_lengths = seq_lengths\<rparr>)"

text \<open>Whether all sequences of a batch have one length.\<close>

definition same_lengths :: "'a list list \<Rightarrow> bool" where
  "same_lengths seqs = list_all (\<lambda>seq. length seq = length (hd seqs)) seqs"

subsection \<open>_run: after the update\<close>

text \<open>
  The variables of \<^verbatim>\<open>_run\<close> that the end of an iteration reads and writes (\<open>s_cur\<close> is
  the source's \<^verbatim>\<open>s\<close>).  \<^verbatim>\<open>ONE_LIFE_GAMES\<close> is imported from a module that is not part
  of the sources and is a parameter.  Logging and the clock are outside the model.
\<close>

record ('e, 'o) worker =
  s_cur :: "'o state"
  total_episode_reward :: real
  reset_game :: bool
  episode_over :: bool
  steps_at_last_reward :: int
  local_step :: int
  emulator :: "('e, 'o) AtariEnvironment"

text \<open>
  Lines 219 to 226.  \<^verbatim>\<open>self.emulator.env.ale.lives()\<close> is evaluated only when the first
  disjunct is false, and raises AttributeError when the environment has no \<^verbatim>\<open>ale\<close>.
\<close>

definition stuck_guard :: "string list \<Rightarrow> ('e, 'o) worker \<Rightarrow> py_error + ('e, 'o) worker" where
  "stuck_guard ONE_LIFE_GAMES w =
     (let fire = w\<lparr>steps_at_last_reward := local_step w, episode_over := True,
                   reset_game := True\<rparr>
      in if 5000 < local_step w - steps_at_last_reward w then Inr fire
         else case ale_lives (env (emulator w)) (env_state (env (emulator w))) of
                None \<Rightarrow> Inl AttributeError
              | Some lives \<Rightarrow>
                  if lives = 0 \<and> game (emulator w) \<notin> set ONE_LIFE_GAMES then Inr fire
                  else Inr w)"

text \<open>Lines 229 to 245.\<close>

definition episode_end :: "'o skimage \<Rightarrow> string list \<Rightarrow> ('e, 'o) worker \<Rightarrow> ('e, 'o) worker" where
  "episode_end sk ONE_LIFE_GAMES w =
     (if episode_over w
      then
        let w1 = w\<lparr>episode_over := False, total_episode_reward := 0,
                   steps_at_last_reward := local_step w\<rparr>
        in if reset_game w1 \<or> game (emulator w1) \<in> set ONE_LIFE_GAMES
           then
             let (s', emu') = get_initial_state sk (emulator w1)
             in w1\<lparr>s_cur := s', emulator := emu', reset_game := False\<rparr>
           else w1
      else w)"

definition after_update ::
  "'o skimage \<Rightarrow> string list \<Rightarrow> ('e, 'o) worker \<Rightarrow> py_error + ('e, 'o) worker" where
  "after_update sk ONE_LIFE_GAMES w =
     (case stuck_guard ONE_LIFE_GAMES w of
        Inl e \<Rightarrow> Inl e
      | Inr w' \<Rightarrow> Inr (episode_end sk ONE_LIFE_GAMES w'))"

subsection \<open>_run: the passes of the inner loop\<close>

text \<open>
  Lines 91 to 102: the variables as \<^verbatim>\<open>_run\<close> sets them before its loop, for a worker whose
  \<^verbatim>\<open>local_step\<close> is \<open>local_step0\<close>.
\<close>

definition run_start ::
  "'o skimage \<Rightarrow> ('e, 'o) AtariEnvironment \<Rightarrow> int \<Rightarrow> ('e, 'o) worker" where
  "run_start sk emu local_step0 =
     (let (s, emu') = get_initial_state sk emu
      in \<lparr>s_cur = s, total_episode_reward = 0, reset_game = False, episode_over = False,
          steps_at_last_reward = local_step0, local_step = local_step0, emulator = emu'\<rparr>)"

text \<open>
  One pass of the inner loop samples a sequence and executes it (lines 121 to 131, which
  \<open>sample_action_sequence\<close> and \<open>execute_sequence\<close> model).  For the bookkeeping that
  follows, the outcome of these lines is a parameter: \<open>decide w\<close> is the resulting state
  \<^verbatim>\<open>new_s\<close>, the accumulated reward, the flag \<^verbatim>\<open>episode_over\<close> and the emulator after a
  pass made from the variables \<open>w\<close>.
\<close>

type_synonym ('e, 'o) decision =
  "('e, 'o) worker \<Rightarrow> 'o state \<times> real \<times> bool \<times> ('e, 'o) AtariEnvironment"

text \<open>
  Lines 121 to 149, one pass.  The lists \<^verbatim>\<open>rewards\<close>, \<^verbatim>\<open>states\<close>, \<^verbatim>\<open>actions\<close> and
  \<^verbatim>\<open>values\<close>, which feed \<open>compute_targets\<close>, and the shared global step are not among
  the variables kept here.
\<close>

definition decision_step :: "('e, 'o) decision \<Rightarrow> ('e, 'o) worker \<Rightarrow> ('e, 'o) worker" where
  "decision_step decide w =
     (let (new_s, reward, over, emu') = decide w;
          w1 = w\<lparr>emulator := emu', episode_over := over\<rparr>;
          w2 = (if reward \<noteq> 0 then w1\<lparr>steps_at_last_reward := local_step w1\<rparr> else w1)
      in w2\<lparr>total_episode_reward := total_episode_reward w2 + reward,
            s_cur := new_s,
            local_step := local_step w2 + 1\<rparr>)"

text \<open>
  The inner \<^verbatim>\<open>while\<close> loop of lines 116 to 149.  \<^verbatim>\<open>local_step - local_step_start\<close>
  counts the passes made since the loop was entered, so the loop runs while the episode
  is not over and passes remain of the \<^verbatim>\<open>max_local_steps\<close> it may make; the recursion
  is on the passes that remain.
\<close>

fun collect :: "('e, 'o) decision \<Rightarrow> nat \<Rightarrow> ('e, 'o) worker \<Rightarrow> ('e, 'o) worker" where
  "collect decide 0 w = w"
| "collect decide (Suc k) w =
     (if episode_over w then w else collect decide k (decision_step decide w))"

text \<open>
  One iteration of the outer loop on these variables: the inner loop, then (after the
  update, which changes none of them) the guard and the end of the episode.
\<close>

definition iteration ::
  "('e, 'o) decision \<Rightarrow> 'o skimage \<Rightarrow> string list \<Rightarrow> nat \<Rightarrow> ('e, 'o) worker
     \<Rightarrow> py_error + ('e, 'o) worker" where
  "iteration decide sk ONE_LIFE_GAMES max_local_steps w =
     after_update sk ONE_LIFE_GAMES (collect decide max_local_steps w)"

subsection \<open>A scripted network\<close>

text \<open>
  A stub of the network for the examples, for a vocabulary of \<open>num_actions\<close> primitive
  actions and the stop token: the value of every state is \<open>v\<close>, and the probabilities at
  every position are the allowed-actions mask of that position, cut or filled with zeros
  to the width of the vocabulary and normalised; the decoder state is handed back as it
  came.
\<close>

definition scripted_network :: "nat \<Rightarrow> nat \<Rightarrow> real \<Rightarrow> 's network" where
  "scripted_network steps num_actions v =
     \<lparr>max_decoder_steps = steps,
      output_layer_v = (\<lambda>s. v),
      decoder_run = (\<lambda>feed.
        (map (map (\<lambda>mask.
                let m = take (Suc num_actions) (mask @ replicate (Suc num_actions) 0)
                in map (\<lambda>x. x / sum_list m) m))
           (fd_allowed_actions feed),
         fd_decoder_initial_state feed))\<rparr>"

text \<open>
  A scripted course of the game for the examples: no pass earns a reward, and the pass
  made at local step \<open>T\<close> ends the episode.  The scripted worker is a worker that starts
  \<^verbatim>\<open>_run\<close> on the scripted emulator at local step 0.
\<close>

definition quiet_decision :: "int \<Rightarrow> ('e, 'o) decision" where
  "quiet_decision T w = (s_cur w, 0, local_step w = T, emulator w)"

definition scripted_worker :: "(nat list, nat) worker" where
  "scripted_worker = run_start scripted_skimage scripted_emulator 0"

section \<open>Properties of utils/stats.py\<close>

lemma map2_add_commute: "map2 (+) P Q = map2 (+) Q (P :: real list)"
proof (induction P arbitrary: Q)
  case Nil
  then show ?case by simp
next
  case (Cons p P)
  then show ?case by (cases Q) (simp_all add: add.commute)
qed

text \<open>
  Claim C9.  For same-shape arrays \<open>P\<close> and \<open>Q\<close>,
  \<open>jenson_shannon_divergence P Q\<close> equals \<open>jenson_shannon_divergence Q P\<close>: the mixture
  \<open>M = 0.5 * (P + Q)\<close> does not depend on the order of the arguments, and the two
  Kullback-Leibler terms are added.
\<close>

theorem jenson_shannon_divergence_symmetric:
  assumes "length P = length Q"
  shows "jenson_shannon_divergence P Q = jenson_shannon_divergence Q P"
proof -
  have "map2 (+) P Q = map2 (+) Q P"
    by (rule map2_add_commute)
  then show ?thesis
    unfolding jenson_shannon_divergence_def Let_def by (simp add: add.commute)
qed

theorem jenson_shannon_divergence_symmetric_witness:
  "length [1/2, 1/2 :: real] = length [1/4, 3/4 :: real] \<and>
   jenson_shannon_divergence [1/2, 1/2] [1/4, 3/4] =
   jenson_shannon_divergence [1/4, 3/4] [1/2, 1/2]"
proof -
  have len: "length [1/2, 1/2 :: real] = length [1/4, 3/4 :: real]"
    by simp
  have "jenson_shannon_divergence [1/2, 1/2] [1/4, 3/4] =
        jenson_shannon_divergence [1/4, 3/4] [1/2, 1/2]"
    by (rule jenson_shannon_divergence_symmetric [OF len])
  with len show ?thesis by (rule conjI)
qed

section \<open>Properties of networks/layers.py\<close>

lemma random_uniform_within:
  assumes unit: "\<forall>i. 0 \<le> rnd i \<and> rnd i < 1" and d: "0 < d"
  shows "list_all (\<lambda>x. - d \<le> x \<and> x < d) (random_uniform rnd shape (- d) d)"
proof -
  have "- d \<le> - d + rnd i * (d - - d) \<and> - d + rnd i * (d - - d) < d" for i
  proof -
    from unit have u: "0 \<le> rnd i" "rnd i < 1" by simp_all
    have "0 \<le> rnd i * (2 * d)" using u d by simp
    moreover have "rnd i * (2 * d) < 1 * (2 * d)"
      using u d by (intro mult_strict_right_mono) simp_all
    ultimately show ?thesis by simp
  qed
  then show ?thesis
    by (simp add: random_uniform_def list_all_iff)
qed

lemma random_uniform_affine:
  "random_uniform rnd shape (- d) d = map (\<lambda>i. - d + rnd i * (2 * d)) [0..<prod_list shape]"
  by (simp add: random_uniform_def)

lemma spec_init_bound_pos:
  assumes "0 < fan_in + fan_out"
  shows "0 < spec_init_bound fan_in fan_out"
proof -
  from assms have "0 < real (fan_in + fan_out)"
    by (simp only: of_nat_0_less_iff)
  then have "0 < 6 / real (fan_in + fan_out)"
    by simp
  then show ?thesis
    unfolding spec_init_bound_def by simp
qed

lemma spec_init_bound_6_6: "spec_init_bound 6 6 = sqrt 2"
proof -
  have "(2::real) * sqrt (6 / 12) = sqrt 4 * sqrt (1 / 2)" by simp
  also have "\<dots> = sqrt (4 * (1 / 2))" by (simp only: real_sqrt_mult)
  also have "\<dots> = sqrt 2" by simp
  finally show ?thesis by (simp add: spec_init_bound_def)
qed

lemma conv_weight_variable_4:
  "conv_weight_variable rnd [k, k, c, f] =
     Inr (random_uniform rnd [k, k, c, f]
            (- spec_init_bound (c * k\<^sup>2) (f * k\<^sup>2)) (spec_init_bound (c * k\<^sup>2) (f * k\<^sup>2)))"
  by (simp add: conv_weight_variable_def spec_init_bound_def Let_def power2_eq_square)

lemma fc_weight_variable_2:
  "0 < i + j \<Longrightarrow> fc_weight_variable rnd [i, j] =
     Inr (random_uniform rnd [i, j] (- spec_init_bound i j) (spec_init_bound i j))"
  by (simp add: fc_weight_variable_def spec_init_bound_def Let_def)

text \<open>
  Claim C8.  \<^verbatim>\<open>conv2d\<close> builds its weight tensor by \<^verbatim>\<open>conv_weight_variable([size, size,
  channels, filters])\<close> and \<^verbatim>\<open>fc\<close> builds its own by \<^verbatim>\<open>fc_weight_variable([input_dim,
  output_dim])\<close>.  With \<open>d = 2 * sqrt (6 / (fan_in + fan_out))\<close>, where \<open>fan_in = channels *
  ksize\<^sup>2\<close> and \<open>fan_out = filters * ksize\<^sup>2\<close> for the convolution and \<open>fan_in =
  input_dim\<close> and \<open>fan_out = output_dim\<close> for the fully-connected layer, the tensor has
  one element per index of its shape, element \<open>i\<close> is the unit sample \<open>rnd i\<close> of the
  generator carried from \<open>[0, 1)\<close> onto \<open>[-d, d)\<close>, that is \<open>- d + rnd i * (2 * d)\<close>, and so
  every element lies in \<open>[-d, d]\<close>.  For \<open>fan_in = fan_out = 6\<close> the bound is \<open>sqrt 2\<close>.
  All dimensions are positive.  (\<open>ksize\<close> is the source's \<^verbatim>\<open>size\<close>.)
\<close>

theorem weight_init_range:
  assumes unit: "\<forall>i. 0 \<le> rnd i \<and> rnd i < 1"
    and conv: "0 < ksize" "0 < channels" "0 < filters"
    and full: "0 < input_dim" "0 < output_dim"
  shows "(\<exists>w. conv_weight_variable rnd [ksize, ksize, channels, filters] = Inr w \<and>
            w = map (\<lambda>i. - spec_init_bound (channels * ksize\<^sup>2) (filters * ksize\<^sup>2) +
                          rnd i * (2 * spec_init_bound (channels * ksize\<^sup>2) (filters * ksize\<^sup>2)))
                  [0..<ksize * ksize * channels * filters] \<and>
            list_all (\<lambda>x. - spec_init_bound (channels * ksize\<^sup>2) (filters * ksize\<^sup>2) \<le> x \<and>
                           x \<le> spec_init_bound (channels * ksize\<^sup>2) (filters * ksize\<^sup>2)) w) \<and>
         (\<exists>w. fc_weight_variable rnd [input_dim, output_dim] = Inr w \<and>
            w = map (\<lambda>i. - spec_init_bound input_dim output_dim +
                          rnd i * (2 * spec_init_bound input_dim output_dim))
                  [0..<input_dim * output_dim] \<and>
            list_all (\<lambda>x. - spec_init_bound input_dim output_dim \<le> x \<and>
                           x \<le> spec_init_bound input_dim output_dim) w) \<and>
         0 < spec_init_bound (channels * ksize\<^sup>2) (filters * ksize\<^sup>2) \<and>
         0 < spec_init_bound input_dim output_dim \<and>
         spec_init_bound 6 6 = sqrt 2"
proof (intro conjI)
  let ?dc = "spec_init_bound (channels * ksize\<^sup>2) (filters * ksize\<^sup>2)"
  let ?df = "spec_init_bound input_dim output_dim"
  show dc: "0 < ?dc"
    using conv by (intro spec_init_bound_pos) simp
  show df: "0 < ?df"
    using full by (intro spec_init_bound_pos) simp
  have "list_all (\<lambda>x. - ?dc \<le> x \<and> x < ?dc)
          (random_uniform rnd [ksize, ksize, channels, filters] (- ?dc) ?dc)"
    by (rule random_uniform_within [OF unit dc])
  then have "list_all (\<lambda>x. - ?dc \<le> x \<and> x \<le> ?dc)
          (random_uniform rnd [ksize, ksize, channels, filters] (- ?dc) ?dc)"
    by (simp add: list_all_iff less_imp_le)
  then show "\<exists>w. conv_weight_variable rnd [ksize, ksize, channels, filters] = Inr w \<and>
            w = map (\<lambda>i. - ?dc + rnd i * (2 * ?dc)) [0..<ksize * ksize * channels * filters] \<and>
            list_all (\<lambda>x. - ?dc \<le> x \<and> x \<le> ?dc) w"
    by (simp add: conv_weight_variable_4 random_uniform_affine [symmetric] mult.assoc)
       (simp add: random_uniform_affine mult.assoc)
  have "list_all (\<lambda>x. - ?df \<le> x \<and> x < ?df)
          (random_uniform rnd [input_dim, output_dim] (- ?df) ?df)"
    by (rule random_uniform_within [OF unit df])
  then have "list_all (\<lambda>x. - ?df \<le> x \<and> x \<le> ?df)
          (random_uniform rnd [input_dim, output_dim] (- ?df) ?df)"
    by (simp add: list_all_iff less_imp_le)
  moreover have "0 < input_dim + output_dim"
    using full by simp
  ultimately show "\<exists>w. fc_weight_variable rnd [input_dim, output_dim] = Inr w \<and>
            w = map (\<lambda>i. - ?df + rnd i * (2 * ?df)) [0..<input_dim * output_dim] \<and>
            list_all (\<lambda>x. - ?df \<le> x \<and> x \<le> ?df) w"
    by (simp add: fc_weight_variable_2) (simp add: random_uniform_affine)
  show "spec_init_bound 6 6 = sqrt 2"
    by (rule spec_init_bound_6_6)
qed

theorem weight_init_range_witness:
  "(\<forall>i. (0::real) \<le> 1 / real (i + 2) \<and> 1 / real (i + 2) < 1) \<and>
   (\<exists>w. conv_weight_variable (\<lambda>i. 1 / real (i + 2)) [1, 1, 6, 6] = Inr w \<and> length w = 36 \<and>
      w ! 0 = 0 \<and> w ! 1 = - (sqrt 2 / 3) \<and>
      list_all (\<lambda>x. - sqrt 2 \<le> x \<and> x \<le> sqrt 2) w) \<and>
   (\<exists>w. fc_weight_variable (\<lambda>i. 1 / real (i + 2)) [6, 6] = Inr w \<and> length w = 36 \<and>
      w ! 0 = 0 \<and> w ! 1 = - (sqrt 2 / 3) \<and>
      list_all (\<lambda>x. - sqrt 2 \<le> x \<and> x \<le> sqrt 2) w)"
proof -
  let ?r = "\<lambda>i. 1 / real (i + 2)"
  have unit: "\<forall>i. (0::real) \<le> ?r i \<and> ?r i < 1"
    by simp
  have pos: "0 < (1::nat)" "0 < (6::nat)"
    by simp_all
  note inst = weight_init_range [OF unit pos(1) pos(2) pos(2) pos(2) pos(2)]
  from inst have b: "spec_init_bound 6 6 = sqrt 2"
    by simp
  from inst obtain w where w: "conv_weight_variable ?r [1, 1, 6, 6] = Inr w"
      "w = map (\<lambda>i. - sqrt 2 + ?r i * (2 * sqrt 2)) [0..<36]"
      "list_all (\<lambda>x. - sqrt 2 \<le> x \<and> x \<le> sqrt 2) w"
    by (auto simp add: b)
  from inst obtain v where v: "fc_weight_variable ?r [6, 6] = Inr v"
      "v = map (\<lambda>i. - sqrt 2 + ?r i * (2 * sqrt 2)) [0..<36]"
      "list_all (\<lambda>x. - sqrt 2 \<le> x \<and> x \<le> sqrt 2) v"
    by (auto simp add: b)
  have el: "map (\<lambda>i. - sqrt 2 + ?r i * (2 * sqrt 2)) [0..<36] ! 0 = 0"
      "map (\<lambda>i. - sqrt 2 + ?r i * (2 * sqrt 2)) [0..<36] ! 1 = - (sqrt 2 / 3)"
      "length (map (\<lambda>i. - sqrt 2 + ?r i * (2 * sqrt 2)) [0..<36]) = 36"
    by (simp_all add: nth_map_upt del: upt_Suc)
  from unit w v el show ?thesis
    by auto
qed

section \<open>Properties of environments/atari_environment.py\<close>

lemma deque_fill:
  "length buf + length js \<le> m \<Longrightarrow>
   fold (\<lambda>i b. deque_append m b x) js buf = buf @ replicate (length js) x"
proof (induction js arbitrary: buf)
  case Nil
  then show ?case by simp
next
  case (Cons j js)
  have "deque_append m buf x = buf @ [x]"
    using Cons.prems by (simp add: deque_append_def)
  moreover have "length (buf @ [x]) + length js \<le> m"
    using Cons.prems by simp
  ultimately show ?case
    using Cons.IH [of "buf @ [x]"] by (simp add: replicate_app_Cons_same)
qed

lemma get_initial_state_stack:
  assumes "\<not> use_rgb emu"
  shows "get_initial_state sk emu =
     (Stack (replicate (agent_history_length emu)
        (get_preprocessed_frame sk emu (fst (env_reset (env emu) (env_state (env emu)))))),
      emu\<lparr>env := (env emu)\<lparr>env_state := snd (env_reset (env emu) (env_state (env emu)))\<rparr>,
          state_buffer := replicate (agent_history_length emu - 1)
             (get_preprocessed_frame sk emu (fst (env_reset (env emu) (env_state (env emu))))),
          current_lives := Some (case ale_lives (env emu) (snd (env_reset (env emu) (env_state (env emu)))) of Some l \<Rightarrow> l | None \<Rightarrow> 0)\<rparr>)"
  using assms
  by (simp add: get_initial_state_def Let_def case_prod_beta deque_fill get_preprocessed_frame_def get_lives_def)

lemma step_frames_cong:
  "step_frames sk (emu\<lparr>env := (env emu)\<lparr>env_state := e1\<rparr>, state_buffer := b, current_lives := c\<rparr>) e as
   = step_frames sk emu e as"
  by (induction as arbitrary: e)
     (simp_all add: get_preprocessed_frame_def Let_def case_prod_beta split: sum.splits)

lemma valid_action_cong:
  "valid_action (emu\<lparr>env := (env emu)\<lparr>env_state := e1\<rparr>, state_buffer := b, current_lives := c\<rparr>)
   = valid_action emu"
  by (rule ext) (simp add: valid_action_def split: sum.splits)

lemma next_window:
  assumes rgb: "\<not> use_rgb emu" and h: "agent_history_length emu = 4"
    and buf: "state_buffer emu = [b0, b1, b2]" and lives: "current_lives emu = Some l"
    and arg: "argmax a = Inr i" and i: "i < length (gym_actions emu)"
  shows "\<exists>r t c. next sk emu a =
     Inr (Stack [b0, b1, b2,
            get_preprocessed_frame sk emu
              (fst (fst (env_step (env emu) (env_state (env emu)) (gym_actions emu ! i))))],
          r, t,
          emu\<lparr>env := (env emu)\<lparr>env_state :=
                  snd (env_step (env emu) (env_state (env emu)) (gym_actions emu ! i))\<rparr>,
              state_buffer := [b1, b2,
                get_preprocessed_frame sk emu
                  (fst (fst (env_step (env emu) (env_state (env emu)) (gym_actions emu ! i))))],
              current_lives := Some c\<rparr>)"
proof -
  have up: "[0..<3] = [0, 1, 2]" by (simp add: upt_rec)
  show ?thesis
    using assms
    by (cases "single_life_episodes emu")
       (auto simp add: next_def Let_def case_prod_beta get_state_def deque_append_def
          get_preprocessed_frame_def up)
qed

lemma nexts_window:
  assumes "\<not> use_rgb emu" and "agent_history_length emu = 4"
    and "state_buffer emu = [b0, b1, b2]" and "current_lives emu = Some l"
    and "list_all (valid_action emu) acts"
  shows "\<exists>emu'. nexts sk emu acts =
     Inr (map (\<lambda>k. Stack (take 4 (drop k ([b0, b1, b2] @
                 step_frames sk emu (env_state (env emu)) acts))))
            [0..<length acts], emu')"
  using assms
proof (induction acts arbitrary: emu b0 b1 b2 l)
  case Nil
  then show ?case by simp
next
  case (Cons a as)
  from Cons.prems(5) obtain i where arg: "argmax a = Inr i" and i: "i < length (gym_actions emu)"
    by (auto simp add: valid_action_def split: sum.splits)
  let ?st = "env_step (env emu) (env_state (env emu)) (gym_actions emu ! i)"
  let ?f = "get_preprocessed_frame sk emu (fst (fst ?st))"
  from next_window [OF Cons.prems(1-4) arg i, of sk]
  obtain r t c where nx: "next sk emu a =
     Inr (Stack [b0, b1, b2, ?f], r, t,
          emu\<lparr>env := (env emu)\<lparr>env_state := snd ?st\<rparr>, state_buffer := [b1, b2, ?f],
              current_lives := Some c\<rparr>)"
    by blast
  let ?emu1 = "emu\<lparr>env := (env emu)\<lparr>env_state := snd ?st\<rparr>, state_buffer := [b1, b2, ?f],
              current_lives := Some c\<rparr>"
  have va: "list_all (valid_action ?emu1) as"
    using Cons.prems(5) by (simp add: valid_action_cong)
  have "\<exists>emu'. nexts sk ?emu1 as =
     Inr (map (\<lambda>k. Stack (take 4 (drop k ([b1, b2, ?f] @
                 step_frames sk ?emu1 (env_state (env ?emu1)) as))))
            [0..<length as], emu')"
    using Cons.prems(1,2) va by (intro Cons.IH [where l = c]) simp_all
  then obtain emu' where ih: "nexts sk ?emu1 as =
     Inr (map (\<lambda>k. Stack (take 4 (drop k ([b1, b2, ?f] @ step_frames sk emu (snd ?st) as))))
            [0..<length as], emu')"
    by (auto simp add: step_frames_cong)
  have fr: "step_frames sk emu (env_state (env emu)) (a # as) = ?f # step_frames sk emu (snd ?st) as"
    by (simp add: arg case_prod_beta Let_def)
  show ?case
    by (simp only: fr nexts.simps nx ih sum.case prod.case length_Cons map_upt_Suc)
       simp
qed


lemma window_slide:
  assumes "k + 4 < length hist"
  shows "length (take 4 (drop k hist)) = 4" and "length (take 4 (drop (Suc k) hist)) = 4"
    and "take 4 (drop (Suc k) hist) ! 3 = hist ! (k + 4)"
    and "take 4 (drop (Suc k) hist) ! 2 = take 4 (drop k hist) ! 3"
  using assms by (simp_all add: eval_nat_numeral)

lemma length_step_frames:
  "list_all (valid_action emu) acts \<Longrightarrow> length (step_frames sk emu e acts) = length acts"
  by (induction acts arbitrary: e)
     (auto simp add: valid_action_def Let_def case_prod_beta split: sum.splits)

lemma episode_states_window:
  assumes rgb: "\<not> use_rgb emu" and h: "agent_history_length emu = 4"
    and acts: "list_all (valid_action emu) acts"
  shows "episode_states sk emu acts =
     Inr (map (\<lambda>k. Stack (take 4 (drop k
            (replicate 4 (get_preprocessed_frame sk emu
                            (fst (env_reset (env emu) (env_state (env emu))))) @
             step_frames sk emu (snd (env_reset (env emu) (env_state (env emu)))) acts))))
          [0..<Suc (length acts)])"
proof -
  let ?x = "get_preprocessed_frame sk emu (fst (env_reset (env emu) (env_state (env emu))))"
  let ?e = "snd (env_reset (env emu) (env_state (env emu)))"
  let ?c = "Some (case ale_lives (env emu) ?e of Some l \<Rightarrow> l | None \<Rightarrow> 0)"
  let ?emu0 = "emu\<lparr>env := (env emu)\<lparr>env_state := ?e\<rparr>,
                 state_buffer := replicate (agent_history_length emu - 1) ?x,
                 current_lives := ?c\<rparr>"
  have r3: "replicate 3 ?x = [?x, ?x, ?x]" and r4: "replicate 4 ?x = [?x, ?x, ?x, ?x]"
    by (simp_all add: numeral_3_eq_3 numeral_Bit0)
  have init: "get_initial_state sk emu = (Stack (replicate 4 ?x), ?emu0)"
    using get_initial_state_stack [OF rgb, of sk] by (simp add: h)
  have va: "valid_action ?emu0 = valid_action emu"
    by (rule valid_action_cong)
  have sf: "step_frames sk ?emu0 e as = step_frames sk emu e as" for e as
    by (rule step_frames_cong)
  have es: "env_state (env ?emu0) = ?e"
    by simp
  have "\<exists>emu'. nexts sk ?emu0 acts =
     Inr (map (\<lambda>k. Stack (take 4 (drop k ([?x, ?x, ?x] @
                 step_frames sk ?emu0 (env_state (env ?emu0)) acts))))
            [0..<length acts], emu')"
  proof (rule nexts_window)
    show "\<not> use_rgb ?emu0" using rgb by simp
    show "agent_history_length ?emu0 = 4" using h by simp
    show "state_buffer ?emu0 = [?x, ?x, ?x]" using h by (simp add: r3)
    show "current_lives ?emu0 = ?c" by simp
    show "list_all (valid_action ?emu0) acts" using acts by (simp only: va)
  qed
  then obtain emu' where nx: "nexts sk ?emu0 acts =
     Inr (map (\<lambda>k. Stack (take 4 (drop k ([?x, ?x, ?x] @ step_frames sk emu ?e acts))))
            [0..<length acts], emu')"
    unfolding es sf by blast
  show ?thesis
    unfolding episode_states_def init
    by (simp only: Let_def prod.case nx sum.case map_upt_Suc r4) simp
qed

text \<open>
  Claim C6.  In non-RGB mode with history length 4, \<open>get_initial_state\<close> returns a stack
  of 4 slices, each the first preprocessed frame, and every later call of \<open>next\<close> returns
  a stack of 4 slices whose last slice is the newly preprocessed frame and whose
  second-to-last slice is the last slice of the state returned before.  The actions are
  ones the wrapper maps to native actions, so that no call raises.
\<close>

theorem sliding_window_states:
  assumes rgb: "\<not> use_rgb emu" and h: "agent_history_length emu = 4"
    and acts: "list_all (valid_action emu) acts"
  shows "\<exists>ss. episode_states sk emu acts = Inr ss \<and> length ss = Suc (length acts) \<and>
           ss ! 0 = Stack (replicate 4 (get_preprocessed_frame sk emu
                             (fst (env_reset (env emu) (env_state (env emu)))))) \<and>
           (\<forall>k<length acts. \<exists>gs fs.
              ss ! k = Stack gs \<and> ss ! Suc k = Stack fs \<and> length gs = 4 \<and> length fs = 4 \<and>
              fs ! 3 = step_frames sk emu (snd (env_reset (env emu) (env_state (env emu)))) acts ! k \<and>
              fs ! 2 = gs ! 3)"
proof -
  let ?x = "get_preprocessed_frame sk emu (fst (env_reset (env emu) (env_state (env emu))))"
  let ?fr = "step_frames sk emu (snd (env_reset (env emu) (env_state (env emu)))) acts"
  define hist where "hist = replicate 4 ?x @ ?fr"
  let ?ss = "map (\<lambda>k. Stack (take 4 (drop k hist))) [0..<Suc (length acts)]"
  have len: "length hist = length acts + 4"
    by (simp add: hist_def length_step_frames [OF acts])
  have eq: "episode_states sk emu acts = Inr ?ss"
    unfolding hist_def by (rule episode_states_window [OF rgb h acts])
  have l: "length ?ss = Suc (length acts)"
    by simp
  have "?ss ! 0 = Stack (take 4 (drop 0 hist))"
    by (simp only: nth_map_upt) (simp add: nth_map_upt del: upt_Suc)
  then have z: "?ss ! 0 = Stack (replicate 4 ?x)"
    by (simp add: hist_def)
  have step: "\<exists>gs fs. ?ss ! k = Stack gs \<and> ?ss ! Suc k = Stack fs \<and> length gs = 4 \<and>
        length fs = 4 \<and> fs ! 3 = ?fr ! k \<and> fs ! 2 = gs ! 3" if k: "k < length acts" for k
  proof -
    have k4: "k + 4 < length hist"
      using k len by simp
    have a: "?ss ! k = Stack (take 4 (drop k hist))"
      using k by (simp add: nth_map_upt del: upt_Suc)
    have b: "?ss ! Suc k = Stack (take 4 (drop (Suc k) hist))"
      using k by (simp add: nth_map_upt del: upt_Suc)
    have "hist ! (k + 4) = ?fr ! k"
      by (simp add: hist_def nth_append)
    with window_slide [OF k4] a b show ?thesis by metis
  qed
  from eq l z step show ?thesis by blast
qed


lemma argmax_examples:
  "argmax [1, 0, 0] = Inr 0" "argmax [0, 1, 0] = Inr 1" "argmax [0, 0, 1] = Inr 2"
  by (simp_all add: argmax_def)

theorem sliding_window_states_witness:
  "\<not> use_rgb scripted_emulator \<and> agent_history_length scripted_emulator = 4 \<and>
   list_all (valid_action scripted_emulator) [[1, 0, 0], [0, 1, 0]] \<and>
   (\<exists>ss. episode_states scripted_skimage scripted_emulator [[1, 0, 0], [0, 1, 0]] = Inr ss \<and>
      length ss = 3 \<and> ss ! 0 = Stack [0, 0, 0, 0] \<and>
      (\<exists>gs fs. ss ! 0 = Stack gs \<and> ss ! 1 = Stack fs \<and> length fs = 4 \<and>
         fs ! 3 = 1 \<and> fs ! 2 = gs ! 3) \<and>
      (\<exists>gs fs. ss ! 1 = Stack gs \<and> ss ! 2 = Stack fs \<and> length fs = 4 \<and>
         fs ! 3 = 2 \<and> fs ! 2 = gs ! 3))"
proof -
  let ?acts = "[[1, 0, 0], [0, 1, 0 :: real]]"
  have rgb: "\<not> use_rgb scripted_emulator" and h: "agent_history_length scripted_emulator = 4"
    by (simp_all add: scripted_emulator_def)
  have acts: "list_all (valid_action scripted_emulator) ?acts"
    by (simp add: valid_action_def argmax_examples scripted_emulator_def)
  have x: "get_preprocessed_frame scripted_skimage scripted_emulator
        (fst (env_reset (env scripted_emulator) (env_state (env scripted_emulator)))) = 0"
    by (simp add: get_preprocessed_frame_def scripted_skimage_def scripted_emulator_def
          scripted_env_def)
  have fr: "step_frames scripted_skimage scripted_emulator
        (snd (env_reset (env scripted_emulator) (env_state (env scripted_emulator)))) ?acts
        = [1, 2]"
    by (simp add: get_preprocessed_frame_def scripted_skimage_def scripted_emulator_def
          scripted_env_def argmax_examples)
  from sliding_window_states [OF rgb h acts, of scripted_skimage]
  obtain ss where ss: "episode_states scripted_skimage scripted_emulator ?acts = Inr ss"
      "length ss = 3" "ss ! 0 = Stack [0, 0, 0, 0]"
    and sl: "\<forall>k<2. \<exists>gs fs. ss ! k = Stack gs \<and> ss ! Suc k = Stack fs \<and> length gs = 4 \<and>
        length fs = 4 \<and> fs ! 3 = [1, 2] ! k \<and> fs ! 2 = gs ! 3"
    unfolding x fr by (auto simp add: eval_nat_numeral)
  from sl [rule_format, of 0] have "\<exists>gs fs. ss ! 0 = Stack gs \<and> ss ! Suc 0 = Stack fs \<and> length gs = 4 \<and>
        length fs = 4 \<and> fs ! 3 = [1, 2] ! 0 \<and> fs ! 2 = gs ! 3"
    by simp
  then have s0: "\<exists>gs fs. ss ! 0 = Stack gs \<and> ss ! 1 = Stack fs \<and> length fs = 4 \<and>
         fs ! 3 = 1 \<and> fs ! 2 = gs ! 3"
    by auto
  from sl [rule_format, of 1] have "\<exists>gs fs. ss ! 1 = Stack gs \<and> ss ! Suc 1 = Stack fs \<and> length gs = 4 \<and>
        length fs = 4 \<and> fs ! 3 = [1, 2] ! 1 \<and> fs ! 2 = gs ! 3"
    by simp
  then have s1: "\<exists>gs fs. ss ! 1 = Stack gs \<and> ss ! 2 = Stack fs \<and> length fs = 4 \<and>
         fs ! 3 = 2 \<and> fs ! 2 = gs ! 3"
    by (auto simp add: eval_nat_numeral)
  from rgb h acts ss s0 s1 show ?thesis by blast
qed

text \<open>
  Claim C7.  For a game identified as \<open>Pong-v0\<close> or \<open>Breakout-v0\<close> the wrapper's native
  action set is \<open>[1, 2, 3]\<close> whatever the action count \<open>n\<close> of the environment, and
  \<open>get_actions\<close> reports 3 actions; for any other game the native action set is
  \<open>[0..<n]\<close>.  The environment reports a discrete action space of \<open>n\<close> actions and
  \<^verbatim>\<open>gym.make\<close> returns the environment registered under the identifier asked for.
\<close>

theorem three_action_games:
  assumes space: "action_space (gym_make g) = Discrete n"
    and ident: "spec_id (gym_make g) = g"
    and hist: "0 < h"
  shows "(if g = ''Pong-v0'' \<or> g = ''Breakout-v0''
          then (\<exists>emu. AtariEnvironment_init gym_make g vis rgb rw rh h fs sl = Inr emu \<and>
                      gym_actions emu = [1, 2, 3]) \<and>
               get_actions gym_make g = Inr (3, Discrete n)
          else (\<exists>emu. AtariEnvironment_init gym_make g vis rgb rw rh h fs sl = Inr emu \<and>
                      gym_actions emu = [0..<n]) \<and>
               get_actions gym_make g = Inr (n, Discrete n))"
  using space ident hist
  by (auto simp add: AtariEnvironment_init_def get_actions_def Let_def)

theorem three_action_games_witness:
  "(\<exists>emu. AtariEnvironment_init
            (\<lambda>g. scripted_env\<lparr>spec_id := g, action_space := Discrete 6\<rparr>)
            ''Pong-v0'' False False 84 84 4 4 False = Inr emu \<and>
          gym_actions emu = [1, 2, 3]) \<and>
   get_actions (\<lambda>g. scripted_env\<lparr>spec_id := g, action_space := Discrete 6\<rparr>) ''Pong-v0''
     = Inr (3, Discrete 6) \<and>
   (\<exists>emu. AtariEnvironment_init
            (\<lambda>g. scripted_env\<lparr>spec_id := g, action_space := Discrete 6\<rparr>)
            ''Seaquest-v0'' False False 84 84 4 4 False = Inr emu \<and>
          gym_actions emu = [0, 1, 2, 3, 4, 5])"
proof -
  let ?mk = "\<lambda>g. scripted_env\<lparr>spec_id := g, action_space := Discrete 6\<rparr>"
  have sp: "action_space (?mk g) = Discrete 6" for g by simp
  have id: "spec_id (?mk g) = g" for g by simp
  have h: "0 < (4::nat)" by simp
  have up: "[0..<6] = [0, 1, 2, 3, 4, 5]" by (simp add: upt_rec)
  from three_action_games [of ?mk "''Pong-v0''" 6 4 False False 84 84 4 False, OF sp id h]
  have a: "(\<exists>emu. AtariEnvironment_init ?mk ''Pong-v0'' False False 84 84 4 4 False = Inr emu \<and>
          gym_actions emu = [1, 2, 3]) \<and> get_actions ?mk ''Pong-v0'' = Inr (3, Discrete 6)"
    by simp
  from three_action_games [of ?mk "''Seaquest-v0''" 6 4 False False 84 84 4 False, OF sp id h]
  have b: "\<exists>emu. AtariEnvironment_init ?mk ''Seaquest-v0'' False False 84 84 4 4 False = Inr emu \<and>
          gym_actions emu = [0, 1, 2, 3, 4, 5]" by (simp add: up)
  from a b show ?thesis by blast
qed

section \<open>Properties of algorithms/sequence_decoder_actor_learner.py\<close>

subsection \<open>The targets of an update\<close>

lemma discounted_return_append:
  "discounted_return gamma (xs @ ys) R = discounted_return gamma xs (discounted_return gamma ys R)"
  by (induction xs) simp_all

lemma return_scan_prefix:
  assumes "k \<le> length states" and "length rewards = length states"
    and "length actions = length states" and "length vals = length states"
  shows "return_scan gamma rewards states actions vals (rev [0..<k]) R b =
     Inr (discounted_return gamma (take k rewards) R,
          b\<lparr>y_batch := y_batch b @
               rev (map (\<lambda>i. discounted_return gamma (drop i (take k rewards)) R) [0..<k]),
            a_batch := a_batch b @ rev (take k actions),
            s_batch := s_batch b @ rev (take k states),
            adv_batch := adv_batch b @
               rev (map (\<lambda>i. discounted_return gamma (drop i (take k rewards)) R - vals ! i)
                      [0..<k])\<rparr>)"
  using assms
proof (induction k arbitrary: R b)
  case 0
  then show ?case by simp
next
  case (Suc k)
  let ?R' = "rewards ! k + gamma * R"
  have k: "k < length rewards" "k < length actions" "k < length states" "k < length vals"
    using Suc.prems by simp_all
  have tk: "take (Suc k) rewards = take k rewards @ [rewards ! k]"
    using k by (simp add: take_Suc_conv_app_nth)
  have dr: "discounted_return gamma (drop i (take (Suc k) rewards)) R =
            discounted_return gamma (drop i (take k rewards)) ?R'" if "i \<le> k" for i
    using that k by (simp add: tk discounted_return_append)
  have m1: "map (\<lambda>i. discounted_return gamma (drop i (take (Suc k) rewards)) R) [0..<k] =
            map (\<lambda>i. discounted_return gamma (drop i (take k rewards)) ?R') [0..<k]"
    by (rule map_cong) (simp_all add: dr)
  have m2: "map (\<lambda>i. discounted_return gamma (drop i (take (Suc k) rewards)) R - vals ! i) [0..<k] =
            map (\<lambda>i. discounted_return gamma (drop i (take k rewards)) ?R' - vals ! i) [0..<k]"
    by (rule map_cong) (simp_all add: dr)
  have last: "discounted_return gamma (drop k (take (Suc k) rewards)) R = ?R'"
    using dr [of k] k by simp
  have top: "discounted_return gamma (take (Suc k) rewards) R =
             discounted_return gamma (take k rewards) ?R'"
    using dr [of 0] by simp
  have ih: "return_scan gamma rewards states actions vals (rev [0..<k]) ?R' b' =
     Inr (discounted_return gamma (take k rewards) ?R',
          b'\<lparr>y_batch := y_batch b' @
               rev (map (\<lambda>i. discounted_return gamma (drop i (take k rewards)) ?R') [0..<k]),
            a_batch := a_batch b' @ rev (take k actions),
            s_batch := s_batch b' @ rev (take k states),
            adv_batch := adv_batch b' @
               rev (map (\<lambda>i. discounted_return gamma (drop i (take k rewards)) ?R' - vals ! i)
                      [0..<k])\<rparr>)" for b'
    using Suc.prems by (intro Suc.IH) simp_all
  have ta: "rev (take (Suc k) actions) = actions ! k # rev (take k actions)"
    and ts: "rev (take (Suc k) states) = states ! k # rev (take k states)"
    using k by (simp_all add: take_Suc_conv_app_nth)
  have "return_scan gamma rewards states actions vals (rev [0..<Suc k]) R b =
        return_scan gamma rewards states actions vals (rev [0..<k]) ?R'
          (b\<lparr>y_batch := y_batch b @ [?R'], a_batch := a_batch b @ [actions ! k],
             s_batch := s_batch b @ [states ! k], adv_batch := adv_batch b @ [?R' - vals ! k]\<rparr>)"
    using k by (simp add: Let_def)
  also have "\<dots> = Inr (discounted_return gamma (take (Suc k) rewards) R,
          b\<lparr>y_batch := y_batch b @
               rev (map (\<lambda>i. discounted_return gamma (drop i (take (Suc k) rewards)) R)
                      [0..<Suc k]),
            a_batch := a_batch b @ rev (take (Suc k) actions),
            s_batch := s_batch b @ rev (take (Suc k) states),
            adv_batch := adv_batch b @
               rev (map (\<lambda>i. discounted_return gamma (drop i (take (Suc k) rewards)) R - vals ! i)
                      [0..<Suc k])\<rparr>)"
    unfolding ih by (simp add: m1 m2 last top ta ts)
  finally show ?case .
qed

lemma compute_targets_eq:
  assumes "length rewards = length states"
    and "length actions = length states" and "length vals = length states"
  shows "compute_targets gamma rewards states actions vals R b =
     Inr (discounted_return gamma rewards R,
          b\<lparr>y_batch := y_batch b @ rev (spec_returns gamma rewards R),
            a_batch := a_batch b @ rev actions,
            s_batch := s_batch b @ rev states,
            adv_batch := adv_batch b @ rev (map2 (-) (spec_returns gamma rewards R) vals)\<rparr>)"
proof -
  have "map2 (-) (spec_returns gamma rewards R) vals =
        map (\<lambda>i. discounted_return gamma (drop i rewards) R - vals ! i) [0..<length states]"
    using assms by (intro nth_equalityI) (simp_all add: spec_returns_def)
  then show ?thesis
    using return_scan_prefix [of "length states" states rewards actions vals gamma R b] assms
    by (simp add: compute_targets_def spec_returns_def)
qed


lemma upt_3: "[0..<3] = [0, 1, 2]"
  by (simp add: upt_rec)

text \<open>
  Claim C1.  The bootstrap of the return is 0 when the episode ended on the last collected
  step and the network's value of the resulting state otherwise.  From it the scan over
  the collected steps, last step first, sets \<open>R\<close> to \<open>rewards ! i + gamma * R\<close> and
  appends \<open>R\<close> to \<open>y_batch\<close> and \<open>R - vals ! i\<close> to \<open>adv_batch\<close>: read backwards,
  what it appends are the discounted returns of the steps in chronological order and
  their advantages.  (The witness is the scenario of three steps of reward 1 that end
  the episode, with \<open>gamma = 0.9\<close>: the returns are 2.71, 1.9 and 1.)
\<close>

theorem discounted_return_targets:
  assumes "length rewards = length states"
    and "length actions = length states" and "length vals = length states"
  shows "bootstrap net True new_s = Inr 0 \<and>
         bootstrap net False (Some s') = Inr (output_layer_v net s') \<and>
         (\<exists>R' b'. compute_targets gamma rewards states actions vals R b = Inr (R', b') \<and>
            y_batch b' = y_batch b @ rev (spec_returns gamma rewards R) \<and>
            adv_batch b' = adv_batch b @ rev (map2 (-) (spec_returns gamma rewards R) vals))"
  by (simp add: bootstrap_def compute_targets_eq [OF assms])

theorem discounted_return_targets_witness:
  "length [1, 1, 1 :: real] = length [0, 1, 2 :: nat] \<and>
   length [[[1, 0, 0], [0, 0, 1]], [[0, 1, 0], [0, 0, 1]], [[1, 0, 0], [0, 0, 1 :: real]]]
     = length [0, 1, 2 :: nat] \<and>
   length [1 / 2, 1 / 2, 1 / 2 :: real] = length [0, 1, 2 :: nat] \<and>
   bootstrap (scripted_network 3 2 (1 / 2)) True (Some (3 :: nat)) = Inr 0 \<and>
   (\<exists>R' b'. compute_targets (9 / 10) [1, 1, 1] [0, 1, 2 :: nat]
               [[[1, 0, 0], [0, 0, 1]], [[0, 1, 0], [0, 0, 1]], [[1, 0, 0], [0, 0, 1]]]
               [1 / 2, 1 / 2, 1 / 2] 0 empty_batches = Inr (R', b') \<and>
            rev (y_batch b') = [271 / 100, 19 / 10, 1] \<and>
            rev (adv_batch b') = [221 / 100, 14 / 10, 1 / 2])"
proof -
  let ?acts = "[[[1, 0, 0], [0, 0, 1]], [[0, 1, 0], [0, 0, 1]], [[1, 0, 0], [0, 0, 1 :: real]]]"
  have l1: "length [1, 1, 1 :: real] = length [0, 1, 2 :: nat]"
    and l2: "length ?acts = length [0, 1, 2 :: nat]"
    and l3: "length [1 / 2, 1 / 2, 1 / 2 :: real] = length [0, 1, 2 :: nat]"
    by simp_all
  have sr: "spec_returns (9 / 10) [1, 1, 1] 0 = [271 / 100, 19 / 10, 1]"
    by (simp add: spec_returns_def upt_3)
  from discounted_return_targets [OF l1 l2 l3, of "scripted_network 3 2 (1 / 2)" "Some (3::nat)" "3::nat"
      "9 / 10" 0 empty_batches]
  show ?thesis
    unfolding sr by (simp add: empty_batches_def)
qed

lemma same_lengths_palindrome:
  assumes "same_lengths seqs"
  shows "map length seqs = rev (map length seqs)"
proof -
  have "map length seqs = replicate (length seqs) (length (hd seqs))"
    using assms by (simp add: same_lengths_def list_all_iff map_replicate_const [symmetric] cong: map_cong)
  then show ?thesis
    by (metis rev_replicate)
qed

text \<open>
  Claim C4, as amended.  The scan appends to empty batches, so \<open>s_batch\<close>, \<open>a_batch\<close>,
  \<open>y_batch\<close> and \<open>adv_batch\<close> are in reverse chronological order, and the padded
  sequence tensors are built from \<open>a_batch\<close>, while \<open>decoder_seq_lengths\<close> lists the
  lengths of the chronological \<open>actions\<close>.  Every entry of \<open>decoder_seq_lengths\<close> is the
  length before padding of the entry of the padded tensors at the same index exactly when
  the list of the lengths reads the same in both directions; this is so in particular
  when all sequences have one length.
\<close>

theorem batch_order_and_lengths:
  assumes lens: "length rewards = length states" "length actions = length states"
      "length vals = length states"
    and steps: "0 < max_decoder_steps net"
  shows "\<exists>R' b' feed.
           compute_targets gamma rewards states actions vals R empty_batches = Inr (R', b') \<and>
           s_batch b' = rev states \<and> a_batch b' = rev actions \<and>
           y_batch b' = rev (spec_returns gamma rewards R) \<and>
           adv_batch b' = rev (map2 (-) (spec_returns gamma rewards R) vals) \<and>
           training_feed net num_actions actions b' = Inr feed \<and>
           tr_decoder_seq_lengths feed = map length actions \<and>
           tr_action_outputs feed =
             map (\<lambda>seq. seq @ replicate (max_decoder_steps net - length seq)
                                 (replicate (num_actions + 1) 0)) (a_batch b') \<and>
           ((\<forall>i<length actions. tr_decoder_seq_lengths feed ! i = length (a_batch b' ! i))
              \<longleftrightarrow> map length actions = rev (map length actions)) \<and>
           (same_lengths actions \<longrightarrow> map length actions = rev (map length actions))"
proof -
  define b' where "b' = \<lparr>s_batch = rev states, a_batch = rev actions,
            y_batch = rev (spec_returns gamma rewards R),
            adv_batch = rev (map2 (-) (spec_returns gamma rewards R) vals)\<rparr>"
  have ct: "compute_targets gamma rewards states actions vals R empty_batches =
            Inr (discounted_return gamma rewards R, b')"
    by (simp add: compute_targets_eq [OF lens] b'_def empty_batches_def)
  have fields: "s_batch b' = rev states" "a_batch b' = rev actions"
      "y_batch b' = rev (spec_returns gamma rewards R)"
      "adv_batch b' = rev (map2 (-) (spec_returns gamma rewards R) vals)"
    by (simp_all add: b'_def)
  obtain feed where feed: "training_feed net num_actions actions b' = Inr feed"
      and sl: "tr_decoder_seq_lengths feed = map length actions"
      and out: "tr_action_outputs feed =
             map (\<lambda>seq. seq @ replicate (max_decoder_steps net - length seq)
                                 (replicate (num_actions + 1) 0)) (a_batch b')"
    using steps by (simp add: training_feed_def Let_def)
  have "(\<forall>i<length actions. map length actions ! i = length (rev actions ! i))
          \<longleftrightarrow> map length actions = map length (rev actions)"
    by (simp add: list_eq_iff_nth_eq)
  then have al: "(\<forall>i<length actions. tr_decoder_seq_lengths feed ! i = length (a_batch b' ! i))
          \<longleftrightarrow> map length actions = rev (map length actions)"
    by (simp only: sl fields rev_map)
  from ct fields feed sl out al same_lengths_palindrome [of actions] show ?thesis
    by blast
qed

theorem batch_order_and_lengths_witness:
  "length [0, 0, 0 :: real] = length [0, 1, 2 :: nat] \<and>
   length [[[1, 0], [0, 1]], [[1, 0], [1, 0], [1, 0]], [[1, 0], [0, 1 :: real]]]
     = length [0, 1, 2 :: nat] \<and>
   length [1 / 2, 1 / 2, 1 / 2 :: real] = length [0, 1, 2 :: nat] \<and>
   0 < max_decoder_steps (scripted_network 3 1 (1 / 2) :: nat network) \<and>
   (\<exists>R' b' feed.
      compute_targets (9 / 10) [0, 0, 0] [0, 1, 2 :: nat]
        [[[1, 0], [0, 1]], [[1, 0], [1, 0], [1, 0]], [[1, 0], [0, 1]]]
        [1 / 2, 1 / 2, 1 / 2] 0 empty_batches = Inr (R', b') \<and>
      s_batch b' = [2, 1, 0] \<and>
      training_feed (scripted_network 3 1 (1 / 2)) 1
        [[[1, 0], [0, 1]], [[1, 0], [1, 0], [1, 0]], [[1, 0], [0, 1]]] b' = Inr feed \<and>
      tr_decoder_seq_lengths feed = [2, 3, 2] \<and>
      tr_action_outputs feed =
        [[[1, 0], [0, 1], [0, 0]], [[1, 0], [1, 0], [1, 0]], [[1, 0], [0, 1], [0, 0]]])"
proof -
  let ?acts = "[[[1, 0], [0, 1]], [[1, 0], [1, 0], [1, 0]], [[1, 0], [0, 1 :: real]]]"
  let ?net = "scripted_network 3 1 (1 / 2) :: nat network"
  have l1: "length [0, 0, 0 :: real] = length [0, 1, 2 :: nat]"
    and l2: "length ?acts = length [0, 1, 2 :: nat]"
    and l3: "length [1 / 2, 1 / 2, 1 / 2 :: real] = length [0, 1, 2 :: nat]"
    and st: "0 < max_decoder_steps ?net"
    by (simp_all add: scripted_network_def)
  from batch_order_and_lengths [OF l1 l2 l3 st, of "9 / 10" 0 1]
  obtain R' b' feed where
    a: "compute_targets (9 / 10) [0, 0, 0] [0, 1, 2 :: nat] ?acts
          [1 / 2, 1 / 2, 1 / 2] 0 empty_batches = Inr (R', b')"
    and b: "s_batch b' = rev [0, 1, 2]" "a_batch b' = rev ?acts"
    and c: "training_feed ?net 1 ?acts b' = Inr feed"
    and d: "tr_decoder_seq_lengths feed = map length ?acts"
    and e: "tr_action_outputs feed =
             map (\<lambda>seq. seq @ replicate (max_decoder_steps ?net - length seq)
                                 (replicate (1 + 1) 0)) (a_batch b')"
    by blast
  have e': "tr_action_outputs feed =
        [[[1, 0], [0, 1], [0, 0]], [[1, 0], [1, 0], [1, 0]], [[1, 0], [0, 1], [0, 0]]]"
    unfolding e b by (simp add: scripted_network_def)
  from l1 l2 l3 st a b c d e' show ?thesis
    by auto
qed

text \<open>
  Claim C4 as first stated makes equal lengths necessary.  For three sequences of lengths
  2, 3 and 2 every entry of \<open>decoder_seq_lengths\<close> is the length of the entry of
  \<open>a_batch\<close> at the same index, and the sequences do not have one length.
\<close>

theorem batch_lengths_counterexample:
  "(case compute_targets (9 / 10) [0, 0, 0] [0, 1, 2 :: nat]
           [[[1, 0], [0, 1]], [[1, 0], [1, 0], [1, 0]], [[1, 0], [0, 1]]]
           [1 / 2, 1 / 2, 1 / 2] 0 empty_batches of
      Inl e \<Rightarrow> False
    | Inr (R', b') \<Rightarrow>
        (case training_feed (scripted_network 3 1 (1 / 2)) 1
                [[[1, 0], [0, 1]], [[1, 0], [1, 0], [1, 0]], [[1, 0], [0, 1]]] b' of
           Inl e \<Rightarrow> False
         | Inr feed \<Rightarrow> tr_decoder_seq_lengths feed = map length (a_batch b'))) \<and>
   \<not> same_lengths [[[1, 0], [0, 1]], [[1, 0], [1, 0], [1, 0]], [[1, 0], [0, 1 :: real]]]"
  by (simp add: compute_targets_eq training_feed_def scripted_network_def same_lengths_def
        empty_batches_def Let_def)

subsection \<open>Sampling an action sequence\<close>

lemma sum_list_one_hot: "sum_list (one_hot m k) = (if k < m then 1 else 0)"
  by (induction m) (auto simp add: one_hot_def)

lemma length_one_hot: "length (one_hot m k) = m"
  by (simp add: one_hot_def)

lemma is_one_hot_one_hot: "k < m \<Longrightarrow> is_one_hot (one_hot m k)"
  by (simp add: is_one_hot_def sum_list_one_hot) (simp add: one_hot_def list_all_iff)

lemma multinomial_once_token:
  assumes "multinomial_once u pvals = Inr tok" and "n < length tok"
  shows "is_one_hot tok" and "length tok = length pvals"
proof -
  from assms(1) have tok: "tok = one_hot (length pvals) (min u (length pvals - 1))"
    by (simp add: multinomial_once_def split: if_splits)
  then show "length tok = length pvals"
    by (simp add: length_one_hot)
  with assms(2) have "min u (length pvals - 1) < length pvals"
    by simp
  then show "is_one_hot tok"
    unfolding tok by (rule is_one_hot_one_hot)
qed

text \<open>One pass through the body of the loop, for any continuation \<open>dl\<close>.\<close>

lemma decode_body_cases:
  assumes body: "(let feed = \<lparr>fd_modify_state = ms, fd_input_ph = [state],
                  fd_decoder_initial_state = cell, fd_decoder_seq_lengths = [1],
                  fd_action_inputs = [replicate (max_decoder_steps net) sel],
                  fd_allowed_actions = [replicate (max_decoder_steps net) allowed]\<rparr>;
          (action_probs, cell_state') = decoder_run net feed
      in if allowed = [] then Some (Inl IndexError)
         else
           let allowed_actions' = allowed[length allowed - 1 := 1]
           in case index00 action_probs of
                Inl e \<Rightarrow> Some (Inl e)
              | Inr probs \<Rightarrow>
                  let pvals = map (\<lambda>x. x - epsneg) probs
                  in case multinomial_once (rng (length actions) pvals) pvals of
                       Inl e \<Rightarrow> Some (Inl e)
                     | Inr selected_action' \<Rightarrow>
                         let actions' = actions @ [selected_action']
                         in if \<not> n < length selected_action' then Some (Inl IndexError)
                            else if selected_action' ! n \<noteq> 0 \<or>
                                    length actions' = max_decoder_steps net
                            then Some (Inr (actions', fed @ [feed]))
                            else dl net rng n state True cell_state'
                                   selected_action' allowed_actions' actions' (fed @ [feed]))
        = Some (Inr (acts, fs))"
  obtains tok probs feed cell' where
    "feed = \<lparr>fd_modify_state = ms, fd_input_ph = [state],
                  fd_decoder_initial_state = cell, fd_decoder_seq_lengths = [1],
                  fd_action_inputs = [replicate (max_decoder_steps net) sel],
                  fd_allowed_actions = [replicate (max_decoder_steps net) allowed]\<rparr>"
    "index00 (fst (decoder_run net feed)) = Inr probs"
    "multinomial_once (rng (length actions) (map (\<lambda>x. x - epsneg) probs))
       (map (\<lambda>x. x - epsneg) probs) = Inr tok"
    "n < length tok" "allowed \<noteq> []"
    "(tok ! n \<noteq> 0 \<or> Suc (length actions) = max_decoder_steps net) \<and>
       acts = actions @ [tok] \<and> fs = fed @ [feed] \<or>
     tok ! n = 0 \<and> Suc (length actions) \<noteq> max_decoder_steps net \<and>
       dl net rng n state True cell' tok (allowed[length allowed - 1 := 1])
          (actions @ [tok]) (fed @ [feed]) = Some (Inr (acts, fs))"
proof -
  let ?feed = "\<lparr>fd_modify_state = ms, fd_input_ph = [state],
                  fd_decoder_initial_state = cell, fd_decoder_seq_lengths = [1],
                  fd_action_inputs = [replicate (max_decoder_steps net) sel],
                  fd_allowed_actions = [replicate (max_decoder_steps net) allowed]\<rparr>"
  obtain action_probs cell' where run: "decoder_run net ?feed = (action_probs, cell')"
    by (cases "decoder_run net ?feed")
  from body run have ne: "allowed \<noteq> []"
    by (auto simp add: Let_def split: if_splits)
  from body run ne obtain probs where probs: "index00 action_probs = Inr probs"
    by (auto simp add: Let_def split: sum.splits)
  let ?pvals = "map (\<lambda>x. x - epsneg) probs"
  from body run ne probs obtain tok
    where tok: "multinomial_once (rng (length actions) ?pvals) ?pvals = Inr tok"
    by (auto simp add: Let_def split: sum.splits)
  from body run ne probs tok have wd: "n < length tok"
    by (auto simp add: Let_def split: if_splits)
  from body run ne probs tok wd
  have "(tok ! n \<noteq> 0 \<or> Suc (length actions) = max_decoder_steps net) \<and>
       acts = actions @ [tok] \<and> fs = fed @ [?feed] \<or>
     tok ! n = 0 \<and> Suc (length actions) \<noteq> max_decoder_steps net \<and>
       dl net rng n state True cell' tok (allowed[length allowed - 1 := 1])
          (actions @ [tok]) (fed @ [?feed]) = Some (Inr (acts, fs))"
    by (auto simp add: Let_def split: if_splits)
  with that [of ?feed probs tok cell'] run probs tok wd ne show thesis
    by simp
qed

lemma decode_loop_tokens:
  assumes major: "decode_loop net rng n state ms cell sel allowed actions fed = Some y"
  shows "\<forall>acts fs. y = Inr (acts, fs) \<longrightarrow>
           list_all (\<lambda>t. is_one_hot t \<and> n < length t \<and> t ! n = 0) actions \<longrightarrow>
           acts \<noteq> [] \<and> list_all (\<lambda>t. is_one_hot t \<and> n < length t) acts \<and>
           list_all (\<lambda>t. t ! n = 0) (butlast acts)"
proof (rule decode_loop.raw_induct [where P = "\<lambda>net rng n state ms cell sel allowed actions fed y.
    \<forall>acts fs. y = Inr (acts, fs) \<longrightarrow>
           list_all (\<lambda>t. is_one_hot t \<and> n < length t \<and> t ! n = 0) actions \<longrightarrow>
           acts \<noteq> [] \<and> list_all (\<lambda>t. is_one_hot t \<and> n < length t) acts \<and>
           list_all (\<lambda>t. t ! n = 0) (butlast acts)", OF _ major], goal_cases)
  case (1 dl net rng n state ms cell sel allowed actions fed y)
  note IH = "1"(1) and body = "1"(2)
  show ?case
  proof (intro allI impI)
    fix acts fs
    assume y: "y = Inr (acts, fs)"
      and inv: "list_all (\<lambda>t. is_one_hot t \<and> n < length t \<and> t ! n = 0) actions"
    from body [unfolded y] show "acts \<noteq> [] \<and>
        list_all (\<lambda>t. is_one_hot t \<and> n < length t) acts \<and>
        list_all (\<lambda>t. t ! n = 0) (butlast acts)"
    proof (cases rule: decode_body_cases)
      case (1 tok probs feed cell')
      note oh = multinomial_once_token(1) [OF "1"(3) "1"(4)]
      from "1"(6) consider
          (stop) "acts = actions @ [tok]"
        | (cont) "tok ! n = 0"
            "dl net rng n state True cell' tok (allowed[length allowed - 1 := 1])
               (actions @ [tok]) (fed @ [feed]) = Some (Inr (acts, fs))"
        by blast
      then show ?thesis
      proof cases
        case stop
        with inv oh "1"(4) show ?thesis by (simp add: list_all_iff)
      next
        case cont
        have "list_all (\<lambda>t. is_one_hot t \<and> n < length t \<and> t ! n = 0) (actions @ [tok])"
          using inv oh "1"(4) cont(1) by simp
        with IH [OF cont(2)] show ?thesis by blast
      qed
    qed
  qed
qed

lemma decode_loop_width:
  assumes major: "decode_loop net rng n state ms cell sel allowed actions fed = Some y"
  shows "(\<forall>feed probs. index00 (fst (decoder_run net feed)) = Inr probs \<longrightarrow>
            length probs = Suc n) \<longrightarrow>
         (\<forall>acts fs. y = Inr (acts, fs) \<longrightarrow> list_all (\<lambda>t. length t = Suc n) actions \<longrightarrow>
            list_all (\<lambda>t. length t = Suc n) acts)"
proof (rule decode_loop.raw_induct [where P = "\<lambda>net rng n state ms cell sel allowed actions fed y.
    (\<forall>feed probs. index00 (fst (decoder_run net feed)) = Inr probs \<longrightarrow> length probs = Suc n) \<longrightarrow>
    (\<forall>acts fs. y = Inr (acts, fs) \<longrightarrow> list_all (\<lambda>t. length t = Suc n) actions \<longrightarrow>
           list_all (\<lambda>t. length t = Suc n) acts)", OF _ major], goal_cases)
  case (1 dl net rng n state ms cell sel allowed actions fed y)
  note IH = "1"(1) and body = "1"(2)
  show ?case
  proof (intro allI impI)
    fix acts fs
    assume width: "\<forall>feed probs. index00 (fst (decoder_run net feed)) = Inr probs \<longrightarrow>
                     length probs = Suc n"
      and y: "y = Inr (acts, fs)"
      and inv: "list_all (\<lambda>t. length t = Suc n) actions"
    from body [unfolded y] show "list_all (\<lambda>t. length t = Suc n) acts"
    proof (cases rule: decode_body_cases)
      case (1 tok probs feed cell')
      have "length tok = length (map (\<lambda>x. x - epsneg) probs)"
        by (rule multinomial_once_token(2) [OF "1"(3) "1"(4)])
      with width "1"(2) have lt: "length tok = Suc n" by simp
      from "1"(6) consider
          (stop) "acts = actions @ [tok]"
        | (cont) "dl net rng n state True cell' tok (allowed[length allowed - 1 := 1])
               (actions @ [tok]) (fed @ [feed]) = Some (Inr (acts, fs))"
        by blast
      then show ?thesis
      proof cases
        case stop
        with inv lt show ?thesis by simp
      next
        case cont
        have "list_all (\<lambda>t. length t = Suc n) (actions @ [tok])"
          using inv lt by simp
        with IH [OF cont] width show ?thesis by blast
      qed
    qed
  qed
qed

lemma decode_loop_feeds:
  assumes major: "decode_loop net rng n state ms cell sel allowed actions fed = Some y"
  shows "\<forall>acts fs. y = Inr (acts, fs) \<longrightarrow>
           length fed = length actions \<longrightarrow>
           allowed = replicate n 1 @ [if actions = [] then 0 else 1] \<longrightarrow>
           (\<forall>k<length fed. fd_allowed_actions (fed ! k) =
              [replicate (max_decoder_steps net) (replicate n 1 @ [if k = 0 then 0 else 1])]) \<longrightarrow>
           length fs = length acts \<and>
           (\<forall>k<length fs. fd_allowed_actions (fs ! k) =
              [replicate (max_decoder_steps net) (replicate n 1 @ [if k = 0 then 0 else 1])]) \<and>
           (length actions < max_decoder_steps net \<longrightarrow> length acts \<le> max_decoder_steps net)"
proof (rule decode_loop.raw_induct [where P = "\<lambda>net rng n state ms cell sel allowed actions fed y.
    \<forall>acts fs. y = Inr (acts, fs) \<longrightarrow>
           length fed = length actions \<longrightarrow>
           allowed = replicate n 1 @ [if actions = [] then 0 else 1] \<longrightarrow>
           (\<forall>k<length fed. fd_allowed_actions (fed ! k) =
              [replicate (max_decoder_steps net) (replicate n 1 @ [if k = 0 then 0 else 1])]) \<longrightarrow>
           length fs = length acts \<and>
           (\<forall>k<length fs. fd_allowed_actions (fs ! k) =
              [replicate (max_decoder_steps net) (replicate n 1 @ [if k = 0 then 0 else 1])]) \<and>
           (length actions < max_decoder_steps net \<longrightarrow> length acts \<le> max_decoder_steps net)",
      OF _ major], goal_cases)
  case (1 dl net rng n state ms cell sel allowed actions fed y)
  note IH = "1"(1) and body = "1"(2)
  show ?case
  proof (intro allI impI)
    fix acts fs
    assume y: "y = Inr (acts, fs)"
      and len: "length fed = length actions"
      and al: "allowed = replicate n 1 @ [if actions = [] then 0 else 1]"
      and fd: "\<forall>k<length fed. fd_allowed_actions (fed ! k) =
              [replicate (max_decoder_steps net) (replicate n 1 @ [if k = 0 then 0 else 1])]"
    from body [unfolded y] show "length fs = length acts \<and>
           (\<forall>k<length fs. fd_allowed_actions (fs ! k) =
              [replicate (max_decoder_steps net) (replicate n 1 @ [if k = 0 then 0 else 1])]) \<and>
           (length actions < max_decoder_steps net \<longrightarrow> length acts \<le> max_decoder_steps net)"
    proof (cases rule: decode_body_cases)
      case (1 tok probs feed cell')
      have fa: "fd_allowed_actions feed =
          [replicate (max_decoder_steps net)
             (replicate n 1 @ [if length fed = 0 then 0 else 1])]"
        using al len by (simp add: "1"(1))
      have fd': "\<forall>k<length (fed @ [feed]). fd_allowed_actions ((fed @ [feed]) ! k) =
              [replicate (max_decoder_steps net) (replicate n 1 @ [if k = 0 then 0 else 1])]"
      proof (intro allI impI)
        fix k assume "k < length (fed @ [feed])"
        then consider "k < length fed" | "k = length fed" by fastforce
        then show "fd_allowed_actions ((fed @ [feed]) ! k) =
              [replicate (max_decoder_steps net) (replicate n 1 @ [if k = 0 then 0 else 1])]"
        proof cases
          case 1
          with fd show ?thesis by (simp add: nth_append)
        next
          case 2
          with fa show ?thesis by (simp add: nth_append)
        qed
      qed
      have al': "allowed[length allowed - 1 := 1] =
                 replicate n 1 @ [if actions @ [tok] = [] then 0 else 1]"
        by (simp add: al list_update_append)
      from "1"(6) consider
          (stop) "acts = actions @ [tok]" "fs = fed @ [feed]"
        | (cont) "Suc (length actions) \<noteq> max_decoder_steps net"
            "dl net rng n state True cell' tok (allowed[length allowed - 1 := 1])
               (actions @ [tok]) (fed @ [feed]) = Some (Inr (acts, fs))"
        by blast
      then show ?thesis
      proof cases
        case stop
        with fd' len show ?thesis by simp
      next
        case cont
        have len': "length (fed @ [feed]) = length (actions @ [tok])"
          using len by simp
        from IH [OF cont(2), rule_format, OF refl len' al' fd' [rule_format]] cont(1)
        show ?thesis by auto
      qed
    qed
  qed
qed


lemma decode_loop_returns:
  "length actions < max_decoder_steps net \<Longrightarrow>
   \<exists>r. decode_loop net rng n state ms cell sel allowed actions fed = Some r"
proof (induction "max_decoder_steps net - length actions"
    arbitrary: ms cell sel allowed actions fed rule: less_induct)
  case less
  have rec: "\<exists>r. decode_loop net rng n state ms' cell' sel' allowed' (actions @ [tok]) fed' = Some r"
    if "Suc (length actions) \<noteq> max_decoder_steps net" for ms' cell' sel' allowed' tok fed'
    using that less.prems by (intro less.hyps) simp_all
  show ?case
    by (subst decode_loop.simps)
       (auto simp add: Let_def rec split: prod.splits sum.splits)
qed

lemma sample_fed_Inr:
  assumes "sample_action_sequence_fed net rng n state = Some (Inr ((actions, val), fed))"
  shows "decode_loop net rng n state False [replicate (256 * 2) 0] (replicate n 0 @ [1])
           (replicate n 1 @ [0]) [] [] = Some (Inr (actions, fed))"
    and "val = output_layer_v net state"
  using assms
  by (auto simp add: sample_action_sequence_fed_def Let_def split: option.splits sum.splits)

lemma sample_Inr:
  assumes "sample_action_sequence net rng n state = Some (Inr (actions, val))"
  shows "\<exists>fed. sample_action_sequence_fed net rng n state = Some (Inr ((actions, val), fed))"
  using assms
  by (auto simp add: sample_action_sequence_def split: option.splits sum.splits)

lemma probs_width_scripted: "probs_width (scripted_network steps n v) n"
  unfolding probs_width_def
proof (intro allI impI)
  fix feed :: "'a decoder_feed" and probs
  assume "index00 (fst (decoder_run (scripted_network steps n v) feed)) = Inr probs"
  then show "length probs = Suc n"
    by (auto simp add: index00_def scripted_network_def Let_def split: list.splits)
qed

lemma one_hot_rec:
  "one_hot 0 k = []" "one_hot (Suc m) k = one_hot m k @ [if m = k then 1 else 0]"
  by (simp_all add: one_hot_def)

lemma replicate_2_3: "replicate 2 x = [x, x]" "replicate 3 x = [x, x, x]"
    "replicate 4 x = [x, x, x, x]"
  by (simp_all add: eval_nat_numeral)

lemma sample_truncated:
  "sample_action_sequence_fed (scripted_network 2 2 (1 / 2)) (\<lambda>k p. k) 2 s =
     Some (Inr (([[1, 0, 0], [0, 1, 0]], 1 / 2),
       [\<lparr>fd_modify_state = False, fd_input_ph = [s],
          fd_decoder_initial_state = [replicate (256 * 2) 0], fd_decoder_seq_lengths = [1],
          fd_action_inputs = [[[0, 0, 1], [0, 0, 1]]],
          fd_allowed_actions = [[[1, 1, 0], [1, 1, 0]]]\<rparr>,
        \<lparr>fd_modify_state = True, fd_input_ph = [s],
          fd_decoder_initial_state = [replicate (256 * 2) 0], fd_decoder_seq_lengths = [1],
          fd_action_inputs = [[[1, 0, 0], [1, 0, 0]]],
          fd_allowed_actions = [[[1, 1, 1], [1, 1, 1]]]\<rparr>]))"
  unfolding sample_action_sequence_fed_def
  by (subst decode_loop.simps,
      simp add: Let_def scripted_network_def index00_def multinomial_once_def epsneg_def
        replicate_2_3 one_hot_rec,
      subst decode_loop.simps,
      simp add: Let_def index00_def multinomial_once_def epsneg_def replicate_2_3 one_hot_rec)

lemma sample_stopped:
  "sample_action_sequence_fed (scripted_network 3 2 (1 / 2)) (\<lambda>k p. 2 * k) 2 s =
     Some (Inr (([[1, 0, 0], [0, 0, 1]], 1 / 2),
       [\<lparr>fd_modify_state = False, fd_input_ph = [s],
          fd_decoder_initial_state = [replicate (256 * 2) 0], fd_decoder_seq_lengths = [1],
          fd_action_inputs = [[[0, 0, 1], [0, 0, 1], [0, 0, 1]]],
          fd_allowed_actions = [[[1, 1, 0], [1, 1, 0], [1, 1, 0]]]\<rparr>,
        \<lparr>fd_modify_state = True, fd_input_ph = [s],
          fd_decoder_initial_state = [replicate (256 * 2) 0], fd_decoder_seq_lengths = [1],
          fd_action_inputs = [[[1, 0, 0], [1, 0, 0], [1, 0, 0]]],
          fd_allowed_actions = [[[1, 1, 1], [1, 1, 1], [1, 1, 1]]]\<rparr>]))"
  unfolding sample_action_sequence_fed_def
  by (subst decode_loop.simps,
      simp add: Let_def scripted_network_def index00_def multinomial_once_def epsneg_def
        replicate_2_3 one_hot_rec,
      subst decode_loop.simps,
      simp add: Let_def index00_def multinomial_once_def epsneg_def replicate_2_3 one_hot_rec)

text \<open>
  The masks that \<open>sample_action_sequence\<close> feeds.  With at least one decoding step
  allowed, it returns or raises, and when it returns: the mask fed on the first decoding
  call has 0 in the stop-token slot of every row, the mask fed on every later call has 1
  there, and the sequence is no longer than \<open>max_decoder_steps\<close>.
\<close>

lemma masks_fed_and_length_bounded:
  assumes steps: "0 < max_decoder_steps net"
  shows "(\<exists>r. sample_action_sequence_fed net rng n state = Some r) \<and>
         (\<forall>actions val fed.
            sample_action_sequence_fed net rng n state = Some (Inr ((actions, val), fed)) \<longrightarrow>
            sample_action_sequence net rng n state = Some (Inr (actions, val)) \<and>
            fed \<noteq> [] \<and> length fed = length actions \<and>
            fd_allowed_actions (fed ! 0) =
              [replicate (max_decoder_steps net) (replicate n 1 @ [0])] \<and>
            (\<forall>k. 0 < k \<and> k < length fed \<longrightarrow>
               fd_allowed_actions (fed ! k) =
                 [replicate (max_decoder_steps net) (replicate n 1 @ [1])]) \<and>
            length actions \<le> max_decoder_steps net)"
proof (intro conjI allI impI)
  from steps have "length ([] :: real list list) < max_decoder_steps net"
    by simp
  from decode_loop_returns [OF this]
  obtain r where "decode_loop net rng n state False [replicate (256 * 2) 0]
      (replicate n 0 @ [1]) (replicate n 1 @ [0]) [] [] = Some r"
    by blast
  then show "\<exists>r. sample_action_sequence_fed net rng n state = Some r"
    by (cases r) (auto simp add: sample_action_sequence_fed_def Let_def)
next
  fix actions val fed
  assume ret: "sample_action_sequence_fed net rng n state = Some (Inr ((actions, val), fed))"
  note dl = sample_fed_Inr(1) [OF ret]
  show "sample_action_sequence net rng n state = Some (Inr (actions, val))"
    by (simp add: sample_action_sequence_def ret)
  from decode_loop_tokens [OF dl] have ne: "actions \<noteq> []"
    by simp
  from decode_loop_feeds [OF dl, rule_format, of actions fed] steps
  have len: "length fed = length actions"
    and masks: "\<forall>k<length fed. fd_allowed_actions (fed ! k) =
        [replicate (max_decoder_steps net) (replicate n 1 @ [if k = 0 then 0 else 1])]"
    and bound: "length actions \<le> max_decoder_steps net"
    by simp_all
  from len show "length fed = length actions" .
  from len ne show "fed \<noteq> []" by auto
  from len ne masks show "fd_allowed_actions (fed ! 0) =
      [replicate (max_decoder_steps net) (replicate n 1 @ [0])]"
    by (cases fed) auto
  from bound show "length actions \<le> max_decoder_steps net" .
  fix k assume "0 < k \<and> k < length fed"
  with masks show "fd_allowed_actions (fed ! k) =
      [replicate (max_decoder_steps net) (replicate n 1 @ [1])]"
    by auto
qed

text \<open>
  Claim C10.  A sequence that \<open>sample_action_sequence\<close> returns is not empty, each of its
  tokens is a one-hot vector of width \<open>num_actions + 1\<close>, and no token but the last is
  the stop token.  The network emits one probability per token of the vocabulary.
\<close>

theorem sampled_sequence_shape:
  assumes ret: "sample_action_sequence net rng n state = Some (Inr (actions, val))"
    and width: "probs_width net n"
  shows "actions \<noteq> [] \<and>
         list_all (\<lambda>t. length t = n + 1 \<and> is_one_hot t) actions \<and>
         list_all (\<lambda>t. \<not> is_stop n t) (butlast actions)"
proof -
  from sample_Inr [OF ret] obtain fed
    where "sample_action_sequence_fed net rng n state = Some (Inr ((actions, val), fed))"
    by blast
  note dl = sample_fed_Inr(1) [OF this]
  from decode_loop_tokens [OF dl]
  have a: "actions \<noteq> []" and b: "list_all (\<lambda>t. is_one_hot t \<and> n < length t) actions"
    and c: "list_all (\<lambda>t. t ! n = 0) (butlast actions)"
    by simp_all
  from decode_loop_width [OF dl] width
  have d: "list_all (\<lambda>t. length t = Suc n) actions"
    by (simp add: probs_width_def)
  from b d have "list_all (\<lambda>t. length t = n + 1 \<and> is_one_hot t) actions"
    by (simp add: list_all_iff)
  moreover from c have "list_all (\<lambda>t. \<not> is_stop n t) (butlast actions)"
    by (simp add: list_all_iff is_stop_def)
  ultimately show ?thesis
    using a by blast
qed

theorem sampled_sequence_shape_witness:
  "sample_action_sequence (scripted_network 3 2 (1 / 2)) (\<lambda>k p. 2 * k) 2 (0 :: nat) =
     Some (Inr ([[1, 0, 0], [0, 0, 1]], 1 / 2)) \<and>
   probs_width (scripted_network 3 2 (1 / 2) :: nat network) 2 \<and>
   [[1, 0, 0], [0, 0, 1 :: real]] \<noteq> [] \<and>
   list_all (\<lambda>t. length t = 2 + 1 \<and> is_one_hot t) [[1, 0, 0], [0, 0, 1]] \<and>
   list_all (\<lambda>t. \<not> is_stop 2 t) (butlast [[1, 0, 0], [0, 0, 1]])"
proof -
  let ?net = "scripted_network 3 2 (1 / 2) :: nat network"
  have ret: "sample_action_sequence ?net (\<lambda>k p. 2 * k) 2 (0 :: nat) =
     Some (Inr ([[1, 0, 0], [0, 0, 1]], 1 / 2))"
    by (simp add: sample_action_sequence_def sample_stopped)
  have width: "probs_width ?net 2"
    by (rule probs_width_scripted)
  from sampled_sequence_shape [OF ret width] ret width show ?thesis
    by (intro conjI) simp_all
qed

text \<open>
  Claim C3, at a draw that no primitive action takes.  The first decoding call is fed the
  mask with 0 in the stop-token slot, and the network answers with probability 0 for the
  stop token.  Line 74 takes \<open>epsneg\<close> off every probability, so the probabilities of the
  primitive actions sum to \<open>1 - 2 * epsneg\<close>, and the sampler gives what is left to the
  last category, the stop token.  When neither primitive action takes the trial, the
  first token drawn is the stop token: the sequence returned is the stop token alone,
  and \<^verbatim>\<open>_run\<close> executes no action for it.
\<close>

theorem stop_token_drawn_at_first_step:
  "sample_action_sequence_fed (scripted_network 3 2 (1 / 2)) (\<lambda>k p. 2) 2 (0 :: nat) =
     Some (Inr (([[0, 0, 1]], 1 / 2),
       [\<lparr>fd_modify_state = False, fd_input_ph = [0],
          fd_decoder_initial_state = [replicate (256 * 2) 0], fd_decoder_seq_lengths = [1],
          fd_action_inputs = [[[0, 0, 1], [0, 0, 1], [0, 0, 1]]],
          fd_allowed_actions = [[[1, 1, 0], [1, 1, 0], [1, 1, 0]]]\<rparr>])) \<and>
   index00 (fst (decoder_run (scripted_network 3 2 (1 / 2))
       \<lparr>fd_modify_state = False, fd_input_ph = [0 :: nat],
          fd_decoder_initial_state = [replicate (256 * 2) 0], fd_decoder_seq_lengths = [1],
          fd_action_inputs = [[[0, 0, 1], [0, 0, 1], [0, 0, 1]]],
          fd_allowed_actions = [[[1, 1, 0], [1, 1, 0], [1, 1, 0]]]\<rparr>)) = Inr [1 / 2, 1 / 2, 0] \<and>
   is_stop 2 [0, 0, 1] \<and>
   sum_list (butlast (map (\<lambda>x. x - epsneg) [1 / 2, 1 / 2, 0])) = 1 - 2 * epsneg \<and>
   0 < epsneg \<and>
   execute_sequence scripted_skimage scripted_emulator [[0, 0, 1]] None =
     Inr (None, 0, False, scripted_emulator)"
proof -
  have a: "sample_action_sequence_fed (scripted_network 3 2 (1 / 2)) (\<lambda>k p. 2) 2 (0 :: nat) =
     Some (Inr (([[0, 0, 1]], 1 / 2),
       [\<lparr>fd_modify_state = False, fd_input_ph = [0],
          fd_decoder_initial_state = [replicate (256 * 2) 0], fd_decoder_seq_lengths = [1],
          fd_action_inputs = [[[0, 0, 1], [0, 0, 1], [0, 0, 1]]],
          fd_allowed_actions = [[[1, 1, 0], [1, 1, 0], [1, 1, 0]]]\<rparr>]))"
    unfolding sample_action_sequence_fed_def
    by (subst decode_loop.simps,
        simp add: Let_def scripted_network_def index00_def multinomial_once_def epsneg_def
          replicate_2_3 one_hot_rec)
  have b: "index00 (fst (decoder_run (scripted_network 3 2 (1 / 2))
       \<lparr>fd_modify_state = False, fd_input_ph = [0 :: nat],
          fd_decoder_initial_state = [replicate (256 * 2) 0], fd_decoder_seq_lengths = [1],
          fd_action_inputs = [[[0, 0, 1], [0, 0, 1], [0, 0, 1]]],
          fd_allowed_actions = [[[1, 1, 0], [1, 1, 0], [1, 1, 0]]]\<rparr>)) = Inr [1 / 2, 1 / 2, 0]"
    by (simp add: scripted_network_def index00_def Let_def)
  have c: "is_stop 2 [0, 0, 1]"
    by (simp add: is_stop_def)
  have d: "sum_list (butlast (map (\<lambda>x. x - epsneg) [1 / 2, 1 / 2, 0])) = 1 - 2 * epsneg"
    and e: "0 < epsneg"
    by (simp_all add: epsneg_def)
  have f: "execute_sequence scripted_skimage scripted_emulator [[0, 0, 1]] None =
     Inr (None, 0, False, scripted_emulator)"
    by (simp add: execute_sequence_def)
  from a b c d e f show ?thesis
    by (intro conjI)
qed

text \<open>
  Claim C2, at a sequence cut at \<open>max_decoder_steps\<close>.  With two decoding steps allowed
  and two primitive tokens drawn, \<open>sample_action_sequence\<close> returns a sequence without a
  stop token.  \<open>_run\<close> executes the first token only: the emulator is stepped once, with
  native action 0, and the member left out is a primitive action the wrapper could have
  executed, not a stop marker.
\<close>

theorem truncated_sequence_drops_primitive_action:
  "sample_action_sequence (scripted_network 2 2 (1 / 2)) (\<lambda>k p. k) 2 (Stack [0, 0, 0, 0 :: nat]) =
     Some (Inr ([[1, 0, 0], [0, 1, 0]], 1 / 2)) \<and>
   \<not> is_stop 2 (last [[1, 0, 0], [0, 1, 0]]) \<and>
   valid_action scripted_emulator (last [[1, 0, 0], [0, 1, 0]]) \<and>
   (case execute_sequence scripted_skimage
           (snd (get_initial_state scripted_skimage scripted_emulator))
           [[1, 0, 0], [0, 1, 0]] None of
      Inl e \<Rightarrow> False
    | Inr (new_s, reward, over, emu') \<Rightarrow>
        new_s = Some (Stack [0, 0, 0, 1]) \<and> reward = 1 \<and> \<not> over \<and>
        env_state (env emu') = [0])"
proof -
  have a: "sample_action_sequence (scripted_network 2 2 (1 / 2)) (\<lambda>k p. k) 2
             (Stack [0, 0, 0, 0 :: nat]) = Some (Inr ([[1, 0, 0], [0, 1, 0]], 1 / 2))"
    by (simp add: sample_action_sequence_def sample_truncated)
  have b: "\<not> is_stop 2 (last [[1, 0, 0], [0, 1, 0]])"
    by (simp add: is_stop_def)
  have c: "valid_action scripted_emulator (last [[1, 0, 0], [0, 1, 0]])"
    by (simp add: valid_action_def argmax_def scripted_emulator_def)
  have init: "get_initial_state scripted_skimage scripted_emulator =
      (Stack [0, 0, 0, 0],
       scripted_emulator\<lparr>env := scripted_env\<lparr>env_state := []\<rparr>, state_buffer := [0, 0, 0],
          current_lives := Some 3\<rparr>)"
    by (simp add: get_initial_state_def Let_def scripted_emulator_def scripted_env_def
          scripted_skimage_def get_preprocessed_frame_def get_lives_def deque_append_def
          upt_3 replicate_2_3)
  have d: "(case execute_sequence scripted_skimage
           (snd (get_initial_state scripted_skimage scripted_emulator))
           [[1, 0, 0], [0, 1, 0]] None of
      Inl e \<Rightarrow> False
    | Inr (new_s, reward, over, emu') \<Rightarrow>
        new_s = Some (Stack [0, 0, 0, 1]) \<and> reward = 1 \<and> \<not> over \<and>
        env_state (env emu') = [0])"
    unfolding init
    by (simp add: execute_sequence_def next_def argmax_def get_state_def Let_def
          scripted_emulator_def scripted_env_def scripted_skimage_def
          get_preprocessed_frame_def get_lives_def deque_append_def
          upt_3)
  from a b c d show ?thesis by blast
qed

subsection \<open>After the update\<close>

lemma decision_step_fields:
  "local_step (decision_step decide w) = local_step w + 1"
  "steps_at_last_reward (decision_step decide w) =
     (if fst (snd (decide w)) \<noteq> 0 then local_step w else steps_at_last_reward w)"
  "episode_over (decision_step decide w) = fst (snd (snd (decide w)))"
  "reset_game (decision_step decide w) = reset_game w"
  "emulator (decision_step decide w) = snd (snd (snd (decide w)))"
  "s_cur (decision_step decide w) = fst (decide w)"
  "total_episode_reward (decision_step decide w) = total_episode_reward w + fst (snd (decide w))"
  by (simp_all add: decision_step_def Let_def case_prod_beta)

lemma collect_quiet:
  assumes "\<not> episode_over w" and "T < local_step w \<or> local_step w + int k \<le> T + 1"
  shows "local_step (collect (quiet_decision T) k w) = local_step w + int k \<and>
         steps_at_last_reward (collect (quiet_decision T) k w) = steps_at_last_reward w \<and>
         episode_over (collect (quiet_decision T) k w) = (0 < k \<and> T + 1 = local_step w + int k) \<and>
         reset_game (collect (quiet_decision T) k w) = reset_game w \<and>
         emulator (collect (quiet_decision T) k w) = emulator w \<and>
         total_episode_reward (collect (quiet_decision T) k w) = total_episode_reward w"
  using assms
proof (induction k arbitrary: w)
  case 0
  then show ?case by simp
next
  case (Suc k)
  let ?w' = "decision_step (quiet_decision T) w"
  have f: "local_step ?w' = local_step w + 1" "steps_at_last_reward ?w' = steps_at_last_reward w"
    "episode_over ?w' = (local_step w = T)" "reset_game ?w' = reset_game w"
    "emulator ?w' = emulator w" "total_episode_reward ?w' = total_episode_reward w"
    by (simp_all add: decision_step_fields quiet_decision_def)
  have c: "collect (quiet_decision T) (Suc k) w = collect (quiet_decision T) k ?w'"
    using Suc.prems(1) by simp
  note over = Suc.prems(1) and range = Suc.prems(2) and IH = Suc.IH
  show ?case
  proof (cases "k = 0")
    case True
    with f over show ?thesis by auto
  next
    case False
    with range have ne: "local_step w \<noteq> T" by auto
    then have "\<not> episode_over ?w'" by (simp add: f)
    moreover have "T < local_step ?w' \<or> local_step ?w' + int k \<le> T + 1"
      using range by (auto simp add: f)
    ultimately show ?thesis
      using IH [of ?w'] False over by (simp add: f)
  qed
qed


lemma scripted_initial_state:
  "get_initial_state scripted_skimage scripted_emulator =
      (Stack [0, 0, 0, 0],
       scripted_emulator\<lparr>env := scripted_env\<lparr>env_state := []\<rparr>, state_buffer := [0, 0, 0],
          current_lives := Some 3\<rparr>)"
  by (simp add: get_initial_state_def Let_def scripted_emulator_def scripted_env_def
        scripted_skimage_def get_preprocessed_frame_def get_lives_def deque_append_def
        upt_3 replicate_2_3)

lemma scripted_worker_fields:
  "s_cur scripted_worker = Stack [0, 0, 0, 0]" "total_episode_reward scripted_worker = 0"
  "\<not> reset_game scripted_worker" "\<not> episode_over scripted_worker"
  "steps_at_last_reward scripted_worker = 0" "local_step scripted_worker = 0"
  "emulator scripted_worker =
     scripted_emulator\<lparr>env := scripted_env\<lparr>env_state := []\<rparr>, state_buffer := [0, 0, 0],
        current_lives := Some 3\<rparr>"
  by (simp_all add: scripted_worker_def run_start_def scripted_initial_state)

lemma scripted_lives:
  "ale_lives (env (emulator scripted_worker)) (env_state (env (emulator scripted_worker))) = Some 3"
  "game (emulator scripted_worker) = ''Scripted-v0''"
  by (simp_all add: scripted_worker_fields) (simp_all add: scripted_emulator_def scripted_env_def)

lemma scripted_reset:
  "get_initial_state scripted_skimage (emulator scripted_worker) =
     (Stack [0, 0, 0, 0], emulator scripted_worker)"
  by (simp add: scripted_worker_fields)
     (simp add: get_initial_state_def Let_def scripted_emulator_def scripted_env_def
        scripted_skimage_def get_preprocessed_frame_def get_lives_def deque_append_def
        upt_3 replicate_2_3)

text \<open>
  Claim C5, as amended.  At the guard that follows each update, when more than 5000 local
  steps have passed since \<open>steps_at_last_reward\<close>, or the emulator reports 0 lives and the
  game is not one of \<open>ONE_LIFE_GAMES\<close>, the guard sets \<open>episode_over\<close> and
  \<open>reset_game\<close>, and the end of the same iteration closes the episode and resets the
  environment, so the worker goes on from a fresh initial state; otherwise the guard
  leaves the variables as they are.  \<open>steps_at_last_reward\<close> is the local step at which
  \<^verbatim>\<open>_run\<close> started, moved to the current local step by every pass with a non-zero
  accumulated reward and by every end of an episode, and moved by nothing else in a pass.
\<close>

theorem stuck_guard_since_counter:
  "(5000 < local_step w - steps_at_last_reward w \<or>
      (ale_lives (env (emulator w)) (env_state (env (emulator w))) = Some 0 \<and>
       game (emulator w) \<notin> set ONE_LIFE_GAMES) \<longrightarrow>
      (\<exists>w' w''. stuck_guard ONE_LIFE_GAMES w = Inr w' \<and>
         episode_over w' \<and> reset_game w' \<and> steps_at_last_reward w' = local_step w \<and>
         after_update sk ONE_LIFE_GAMES w = Inr w'' \<and>
         s_cur w'' = fst (get_initial_state sk (emulator w)) \<and>
         emulator w'' = snd (get_initial_state sk (emulator w)) \<and>
         \<not> episode_over w'' \<and> \<not> reset_game w'' \<and> total_episode_reward w'' = 0 \<and>
         steps_at_last_reward w'' = local_step w \<and> local_step w'' = local_step w)) \<and>
   (\<not> 5000 < local_step w - steps_at_last_reward w \<and>
      ale_lives (env (emulator w)) (env_state (env (emulator w))) = Some lives \<and>
      (lives \<noteq> 0 \<or> game (emulator w) \<in> set ONE_LIFE_GAMES) \<longrightarrow>
      stuck_guard ONE_LIFE_GAMES w = Inr w) \<and>
   local_step (decision_step decide w) = local_step w + 1 \<and>
   steps_at_last_reward (decision_step decide w) =
     (if fst (snd (decide w)) \<noteq> 0 then local_step w else steps_at_last_reward w) \<and>
   (episode_over w \<longrightarrow>
      steps_at_last_reward (episode_end sk ONE_LIFE_GAMES w) = local_step w \<and>
      local_step (episode_end sk ONE_LIFE_GAMES w) = local_step w \<and>
      \<not> episode_over (episode_end sk ONE_LIFE_GAMES w)) \<and>
   (\<not> episode_over w \<longrightarrow> episode_end sk ONE_LIFE_GAMES w = w) \<and>
   steps_at_last_reward (run_start sk emu t) = t \<and> local_step (run_start sk emu t) = t"
proof (intro conjI impI)
  assume fire: "5000 < local_step w - steps_at_last_reward w \<or>
      (ale_lives (env (emulator w)) (env_state (env (emulator w))) = Some 0 \<and>
       game (emulator w) \<notin> set ONE_LIFE_GAMES)"
  let ?fire = "w\<lparr>steps_at_last_reward := local_step w, episode_over := True,
                 reset_game := True\<rparr>"
  have g: "stuck_guard ONE_LIFE_GAMES w = Inr ?fire"
    using fire by (auto simp add: stuck_guard_def Let_def)
  have "after_update sk ONE_LIFE_GAMES w = Inr (episode_end sk ONE_LIFE_GAMES ?fire)"
    by (simp add: after_update_def g)
  then show "\<exists>w' w''. stuck_guard ONE_LIFE_GAMES w = Inr w' \<and>
         episode_over w' \<and> reset_game w' \<and> steps_at_last_reward w' = local_step w \<and>
         after_update sk ONE_LIFE_GAMES w = Inr w'' \<and>
         s_cur w'' = fst (get_initial_state sk (emulator w)) \<and>
         emulator w'' = snd (get_initial_state sk (emulator w)) \<and>
         \<not> episode_over w'' \<and> \<not> reset_game w'' \<and> total_episode_reward w'' = 0 \<and>
         steps_at_last_reward w'' = local_step w \<and> local_step w'' = local_step w"
    using g by (simp add: episode_end_def Let_def case_prod_beta)
next
  assume "\<not> 5000 < local_step w - steps_at_last_reward w \<and>
      ale_lives (env (emulator w)) (env_state (env (emulator w))) = Some lives \<and>
      (lives \<noteq> 0 \<or> game (emulator w) \<in> set ONE_LIFE_GAMES)"
  then show "stuck_guard ONE_LIFE_GAMES w = Inr w"
    by (auto simp add: stuck_guard_def Let_def)
next
  show "local_step (decision_step decide w) = local_step w + 1"
    by (rule decision_step_fields)
  show "steps_at_last_reward (decision_step decide w) =
     (if fst (snd (decide w)) \<noteq> 0 then local_step w else steps_at_last_reward w)"
    by (rule decision_step_fields)
next
  assume over: "episode_over w"
  then show "steps_at_last_reward (episode_end sk ONE_LIFE_GAMES w) = local_step w"
    by (simp add: episode_end_def Let_def case_prod_beta)
  from over show "local_step (episode_end sk ONE_LIFE_GAMES w) = local_step w"
    by (simp add: episode_end_def Let_def case_prod_beta)
  from over show "\<not> episode_over (episode_end sk ONE_LIFE_GAMES w)"
    by (simp add: episode_end_def Let_def case_prod_beta)
next
  assume "\<not> episode_over w"
  then show "episode_end sk ONE_LIFE_GAMES w = w"
    by (simp add: episode_end_def)
next
  show "steps_at_last_reward (run_start sk emu t) = t" "local_step (run_start sk emu t) = t"
    by (simp_all add: run_start_def case_prod_beta)
qed

theorem stuck_guard_since_counter_witness:
  "5000 < local_step (scripted_worker\<lparr>local_step := 6001, steps_at_last_reward := 1000\<rparr>)
          - steps_at_last_reward (scripted_worker\<lparr>local_step := 6001, steps_at_last_reward := 1000\<rparr>) \<and>
   (\<exists>w' w''. stuck_guard [''Bowling-v0'']
                (scripted_worker\<lparr>local_step := 6001, steps_at_last_reward := 1000\<rparr>) = Inr w' \<and>
      episode_over w' \<and> reset_game w' \<and>
      after_update scripted_skimage [''Bowling-v0'']
                (scripted_worker\<lparr>local_step := 6001, steps_at_last_reward := 1000\<rparr>) = Inr w'' \<and>
      s_cur w'' = Stack [0, 0, 0, 0] \<and> state_buffer (emulator w'') = [0, 0, 0] \<and>
      \<not> episode_over w'' \<and> \<not> reset_game w'' \<and> total_episode_reward w'' = 0 \<and>
      steps_at_last_reward w'' = 6001) \<and>
   \<not> 5000 < local_step scripted_worker - steps_at_last_reward scripted_worker \<and>
   stuck_guard [''Bowling-v0''] scripted_worker = Inr scripted_worker \<and>
   steps_at_last_reward
     (decision_step (\<lambda>w. (s_cur w, 1, False, emulator w))
        (scripted_worker\<lparr>local_step := 6001, steps_at_last_reward := 1000\<rparr>)) = 6001 \<and>
   steps_at_last_reward
     (decision_step (quiet_decision 2999)
        (scripted_worker\<lparr>local_step := 6001, steps_at_last_reward := 1000\<rparr>)) = 1000 \<and>
   episode_over (scripted_worker\<lparr>episode_over := True, local_step := 3000\<rparr>) \<and>
   steps_at_last_reward
     (episode_end scripted_skimage [''Bowling-v0'']
        (scripted_worker\<lparr>episode_over := True, local_step := 3000\<rparr>)) = 3000 \<and>
   \<not> episode_over scripted_worker \<and>
   episode_end scripted_skimage [''Bowling-v0''] scripted_worker = scripted_worker \<and>
   steps_at_last_reward (run_start scripted_skimage scripted_emulator 0) = 0"
proof -
  let ?wf = "scripted_worker\<lparr>local_step := 6001, steps_at_last_reward := 1000\<rparr>"
  let ?wo = "scripted_worker\<lparr>episode_over := True, local_step := 3000\<rparr>"
  let ?olg = "[''Bowling-v0'']"
  let ?paid = "\<lambda>w :: (nat list, nat) worker. (s_cur w, 1 :: real, False, emulator w)"
  have stuck: "5000 < local_step ?wf - steps_at_last_reward ?wf"
    by simp
  have calm: "\<not> 5000 < local_step scripted_worker - steps_at_last_reward scripted_worker"
    by (simp add: scripted_worker_fields)
  note lives = scripted_lives(1)
  have over: "episode_over ?wo" and quiet: "\<not> episode_over scripted_worker"
    by (simp_all add: scripted_worker_fields)
  note fire = stuck_guard_since_counter
    [of ?wf ?olg scripted_skimage 3 ?paid scripted_emulator 0]
  note rest = stuck_guard_since_counter
    [of scripted_worker ?olg scripted_skimage 3 ?paid scripted_emulator 0]
  note silent = stuck_guard_since_counter
    [of ?wf ?olg scripted_skimage 3 "quiet_decision 2999" scripted_emulator 0]
  note ended = stuck_guard_since_counter
    [of ?wo ?olg scripted_skimage 3 ?paid scripted_emulator 0]
  from fire stuck obtain w' w'' where
    a: "stuck_guard ?olg ?wf = Inr w'" "episode_over w'" "reset_game w'"
      "after_update scripted_skimage ?olg ?wf = Inr w''"
    and c: "s_cur w'' = fst (get_initial_state scripted_skimage (emulator ?wf))"
      "emulator w'' = snd (get_initial_state scripted_skimage (emulator ?wf))"
    and d: "\<not> episode_over w''" "\<not> reset_game w''" "total_episode_reward w'' = 0"
      "steps_at_last_reward w'' = local_step ?wf"
    by blast
  from c have c': "s_cur w'' = Stack [0, 0, 0, 0]" "state_buffer (emulator w'') = [0, 0, 0]"
    by (simp_all add: scripted_reset) (simp add: scripted_worker_fields)
  from d have d': "steps_at_last_reward w'' = 6001"
    by simp
  from rest calm lives have e: "stuck_guard ?olg scripted_worker = Inr scripted_worker"
    by simp
  from fire have f: "steps_at_last_reward (decision_step ?paid ?wf) = 6001"
    by simp
  from silent have g: "steps_at_last_reward (decision_step (quiet_decision 2999) ?wf) = 1000"
    by (simp add: quiet_decision_def)
  from ended over have h: "steps_at_last_reward (episode_end scripted_skimage ?olg ?wo) = 3000"
    by simp
  from rest quiet have i: "episode_end scripted_skimage ?olg scripted_worker = scripted_worker"
    by simp
  from rest have j: "steps_at_last_reward (run_start scripted_skimage scripted_emulator 0) = 0"
    by simp
  from stuck a c' d d' calm e f g over h quiet i j show ?thesis
    by blast
qed

text \<open>
  Claim C5 as first stated counts from the last non-zero reward.  On the scripted course
  no pass earns a reward; the episode ends with the pass of local step 2999, the last of
  the first iteration, and the end of the episode moves the counter to 3000.  At the
  guard of the second iteration the worker has made 6000 passes without a reward, and
  the guard leaves it in its episode.
\<close>

theorem stuck_guard_silent_counterexample:
  "(case iteration (quiet_decision 2999) scripted_skimage [''Bowling-v0''] 3000 scripted_worker of
      Inl e \<Rightarrow> False
    | Inr w1 \<Rightarrow>
        local_step w1 = 3000 \<and> steps_at_last_reward w1 = 3000 \<and> \<not> episode_over w1 \<and>
        (case stuck_guard [''Bowling-v0''] (collect (quiet_decision 2999) 3000 w1) of
           Inl e \<Rightarrow> False
         | Inr w2 \<Rightarrow>
             w2 = collect (quiet_decision 2999) 3000 w1 \<and>
             local_step w2 = 6000 \<and> steps_at_last_reward w2 = 3000 \<and>
             \<not> episode_over w2 \<and> \<not> reset_game w2))"
proof -
  let ?q = "quiet_decision 2999 :: (nat list, nat) decision"
  let ?olg = "[''Bowling-v0'']"
  let ?c1 = "collect ?q 3000 scripted_worker"
  have c1: "local_step ?c1 = 3000" "steps_at_last_reward ?c1 = 0" "episode_over ?c1"
    "\<not> reset_game ?c1" "emulator ?c1 = emulator scripted_worker"
    using collect_quiet [of scripted_worker 2999 3000]
    by (simp_all add: scripted_worker_fields(1-6))
  have g1: "stuck_guard ?olg ?c1 = Inr ?c1"
    by (simp add: stuck_guard_def Let_def c1 scripted_lives)
  let ?w1 = "?c1\<lparr>episode_over := False, total_episode_reward := 0,
                  steps_at_last_reward := 3000\<rparr>"
  have it: "iteration ?q scripted_skimage ?olg 3000 scripted_worker = Inr ?w1"
    by (simp add: iteration_def after_update_def g1 episode_end_def Let_def c1 scripted_lives)
  let ?c2 = "collect ?q 3000 ?w1"
  have c2: "local_step ?c2 = 6000" "steps_at_last_reward ?c2 = 3000" "\<not> episode_over ?c2"
    "\<not> reset_game ?c2" "emulator ?c2 = emulator scripted_worker"
    using collect_quiet [of ?w1 2999 3000]
    by (simp_all add: c1)
  have g2: "stuck_guard ?olg ?c2 = Inr ?c2"
    by (simp add: stuck_guard_def Let_def c2 scripted_lives)
  show ?thesis
    by (simp add: it g2 c1 c2)
qed

end
